theory Spec2Isabelle
  imports Main
begin

section \<open>Errors and wire data\<close>

text \<open>
  The exceptions the two source files can see. \<open>LocalProtocolError\<close> and
  \<open>RemoteProtocolError\<close> are the two subclasses of \<open>h11.ProtocolError\<close>;
  \<open>AssertionError\<close> is what a failing \<open>assert\<close> raises; \<open>TypeError\<close> is writing
  \<open>None\<close> to the transport; \<open>StreamConsumed\<close> and \<open>ResponseClosed\<close> belong to the
  response model.
\<close>

datatype error =
    LocalProtocolError
  | RemoteProtocolError
  | ReadTimeout
  | WriteTimeout
  | ConnectTimeout
  | AssertionError
  | TypeError
  | StreamConsumed
  | ResponseClosed

fun is_ProtocolError :: "error \<Rightarrow> bool" where
  "is_ProtocolError LocalProtocolError = True"
| "is_ProtocolError RemoteProtocolError = True"
| "is_ProtocolError _ = False"

type_synonym header_list = "(string \<times> string) list"

text \<open>The \<open>H11Event\<close> union of http11.py, lines 11-18.\<close>

datatype h11_event =
    h11_Request string string header_list
  | h11_Response int string header_list
  | h11_InformationalResponse int header_list
  | h11_Data string
  | h11_EndOfMessage
  | h11_ConnectionClosed

text \<open>
  Byte-level framing is left to the protocol-state machine (spec, section 4.2), so the
  bytes on the wire are kept as the events they frame: what \<open>h11_state.send(event)\<close>
  serialises is the one-element chunk \<open>[event]\<close>, and a chunk that arrives from the peer
  is the list of events its bytes complete. The empty chunk is \<open>b""\<close>, the end of the
  stream.
\<close>

type_synonym wire = "h11_event list"

type_synonym OptionalTimeout = "nat option"

section \<open>The protocol-state machine\<close>

text \<open>
  Modelled from the spec: the \<open>h11.Connection\<close> object held in \<open>self.h11_state\<close>. It
  belongs to the h11 library, which http11.py imports and which is not among the source
  files. Section 3 of the spec describes it as a pair of state machines, one for the
  local (request-writing) role and one for the peer (response-reading) role, moving
  idle, sending-body, done, with the terminal branches must-close, closed and error;
  both must be done for a reset to idle/idle, and an event the machine rejects is a
  protocol error (section 7). The transitions below are those of a client-role
  connection without protocol switching. \<open>SEND_RESPONSE\<close> is the state of the peer
  between our request and its final response, where informational responses are legal.
\<close>

datatype h11_machine_state =
  IDLE | SEND_RESPONSE | SEND_BODY | DONE | MUST_CLOSE | CLOSED | ERROR

record h11_Connection =
  our_state :: h11_machine_state
  their_state :: h11_machine_state
  keep_alive :: bool
  receive_buffer :: "h11_event list"
  receive_buffer_closed :: bool

definition h11_new :: h11_Connection where
  "h11_new = \<lparr>our_state = IDLE, their_state = IDLE, keep_alive = True,
              receive_buffer = [], receive_buffer_closed = False\<rparr>"

text \<open>Events legal for the local (client) role, by state.\<close>

fun client_transition :: "h11_machine_state \<Rightarrow> h11_event \<Rightarrow> h11_machine_state option" where
  "client_transition IDLE (h11_Request m t hs) = Some SEND_BODY"
| "client_transition IDLE h11_ConnectionClosed = Some CLOSED"
| "client_transition SEND_BODY (h11_Data d) = Some SEND_BODY"
| "client_transition SEND_BODY h11_EndOfMessage = Some DONE"
| "client_transition DONE h11_ConnectionClosed = Some CLOSED"
| "client_transition MUST_CLOSE h11_ConnectionClosed = Some CLOSED"
| "client_transition CLOSED h11_ConnectionClosed = Some CLOSED"
| "client_transition _ _ = None"

text \<open>Events legal for the peer (server) role, by state.\<close>

fun server_transition :: "h11_machine_state \<Rightarrow> h11_event \<Rightarrow> h11_machine_state option" where
  "server_transition IDLE h11_ConnectionClosed = Some CLOSED"
| "server_transition IDLE (h11_Response s r hs) = Some SEND_BODY"
| "server_transition SEND_RESPONSE (h11_InformationalResponse s hs) = Some SEND_RESPONSE"
| "server_transition SEND_RESPONSE (h11_Response s r hs) = Some SEND_BODY"
| "server_transition SEND_BODY (h11_Data d) = Some SEND_BODY"
| "server_transition SEND_BODY h11_EndOfMessage = Some DONE"
| "server_transition DONE h11_ConnectionClosed = Some CLOSED"
| "server_transition MUST_CLOSE h11_ConnectionClosed = Some CLOSED"
| "server_transition CLOSED h11_ConnectionClosed = Some CLOSED"
| "server_transition _ _ = None"

text \<open>
  Transitions that states trigger, run after every event: without keep-alive a role
  that is done must close, and a role facing a closed or failed partner must close.
\<close>

definition fire_state_triggered_transitions :: "h11_Connection \<Rightarrow> h11_Connection" where
  "fire_state_triggered_transitions h =
     (let ours = (if \<not> keep_alive h \<and> our_state h = DONE then MUST_CLOSE else our_state h);
          theirs = (if \<not> keep_alive h \<and> their_state h = DONE then MUST_CLOSE else their_state h)
      in h\<lparr>our_state :=
             (if (ours = DONE \<and> theirs = CLOSED) \<or> (ours = IDLE \<and> theirs = CLOSED)
                 \<or> (ours = DONE \<and> theirs = ERROR)
              then MUST_CLOSE else ours),
           their_state :=
             (if (ours = CLOSED \<and> theirs = DONE) \<or> (ours = CLOSED \<and> theirs = IDLE)
                 \<or> (ours = ERROR \<and> theirs = DONE)
              then MUST_CLOSE else theirs)\<rparr>)"

text \<open>A request or response carrying \<open>Connection: close\<close> disables keep-alive.\<close>

fun event_keep_alive :: "h11_event \<Rightarrow> bool" where
  "event_keep_alive (h11_Request m t hs) = (\<not> List.member hs (''connection'', ''close''))"
| "event_keep_alive (h11_Response s r hs) = (\<not> List.member hs (''connection'', ''close''))"
| "event_keep_alive _ = True"

definition process_keep_alive :: "h11_event \<Rightarrow> h11_Connection \<Rightarrow> h11_Connection" where
  "process_keep_alive ev h =
     (if event_keep_alive ev then h
      else fire_state_triggered_transitions (h\<lparr>keep_alive := False\<rparr>))"

text \<open>
  An event of the local role: the local machine moves, and a request also moves an idle
  peer machine to \<open>SEND_RESPONSE\<close>. \<open>None\<close> is an event the machine rejects.
\<close>

definition process_client_event :: "h11_event \<Rightarrow> h11_Connection \<Rightarrow> h11_Connection option" where
  "process_client_event ev h =
     (case client_transition (our_state h) ev of
        None \<Rightarrow> None
      | Some s \<Rightarrow>
          (case ev of
             h11_Request m t hs \<Rightarrow>
               (if their_state h = IDLE
                then Some (process_keep_alive ev (fire_state_triggered_transitions
                             (h\<lparr>our_state := s, their_state := SEND_RESPONSE\<rparr>)))
                else None)
           | _ \<Rightarrow> Some (process_keep_alive ev (fire_state_triggered_transitions
                             (h\<lparr>our_state := s\<rparr>)))))"

definition process_server_event :: "h11_event \<Rightarrow> h11_Connection \<Rightarrow> h11_Connection option" where
  "process_server_event ev h =
     (case server_transition (their_state h) ev of
        None \<Rightarrow> None
      | Some s \<Rightarrow> Some (process_keep_alive ev (fire_state_triggered_transitions
                          (h\<lparr>their_state := s\<rparr>))))"

text \<open>
  \<open>h11_state.send(event)\<close>: the serialised bytes, \<open>None\<close> for a connection-closed
  event. A rejected event raises \<open>LocalProtocolError\<close> and leaves the local machine in
  \<open>ERROR\<close>; so does any send once the local machine is in \<open>ERROR\<close>.
\<close>

definition h11_send :: "h11_event \<Rightarrow> h11_Connection \<Rightarrow> (error + wire option) \<times> h11_Connection" where
  "h11_send ev h =
     (if our_state h = ERROR then (Inl LocalProtocolError, h)
      else (case process_client_event ev h of
              None \<Rightarrow> (Inl LocalProtocolError,
                        fire_state_triggered_transitions (h\<lparr>our_state := ERROR\<rparr>))
            | Some h' \<Rightarrow>
                (Inr (if ev = h11_ConnectionClosed then None else Some [ev]), h')))"

text \<open>\<open>h11_state.receive_data(data)\<close>: empty data marks the end of the stream.\<close>

definition h11_receive_data :: "wire \<Rightarrow> h11_Connection \<Rightarrow> h11_Connection" where
  "h11_receive_data data h =
     (if data = [] then h\<lparr>receive_buffer_closed := True\<rparr>
      else h\<lparr>receive_buffer := receive_buffer h @ data\<rparr>)"

text \<open>
  \<open>h11_state.next_event()\<close>: the next event the received bytes complete, \<open>NEED_DATA\<close>
  when they complete none and the stream is open, \<open>PAUSED\<close> when the peer is done and
  bytes of a next message wait. An event the peer machine rejects raises
  \<open>RemoteProtocolError\<close> and leaves the peer machine in \<open>ERROR\<close>.
\<close>

datatype h11_next = NEED_DATA | PAUSED | Event h11_event

definition h11_next_event :: "h11_Connection \<Rightarrow> (error + h11_next) \<times> h11_Connection" where
  "h11_next_event h =
     (if their_state h = ERROR then (Inl RemoteProtocolError, h)
      else if their_state h = DONE \<and> receive_buffer h \<noteq> [] then (Inr PAUSED, h)
      else (case receive_buffer h of
              [] \<Rightarrow>
                (if receive_buffer_closed h
                 then (case process_server_event h11_ConnectionClosed h of
                         None \<Rightarrow> (Inl RemoteProtocolError,
                                   fire_state_triggered_transitions (h\<lparr>their_state := ERROR\<rparr>))
                       | Some h' \<Rightarrow> (Inr (Event h11_ConnectionClosed), h'))
                 else (Inr NEED_DATA, h))
            | ev # rest \<Rightarrow>
                (case process_server_event ev (h\<lparr>receive_buffer := rest\<rparr>) of
                   None \<Rightarrow> (Inl RemoteProtocolError,
                             fire_state_triggered_transitions
                               (h\<lparr>receive_buffer := rest, their_state := ERROR\<rparr>))
                 | Some h' \<Rightarrow> (Inr (Event ev), h'))))"

text \<open>\<open>h11_state.start_next_cycle()\<close>: both machines done go back to idle.\<close>

definition h11_start_next_cycle :: "h11_Connection \<Rightarrow> error + h11_Connection" where
  "h11_start_next_cycle h =
     (if our_state h = DONE \<and> their_state h = DONE
      then Inr (h\<lparr>our_state := IDLE, their_state := IDLE\<rparr>)
      else Inl LocalProtocolError)"

section \<open>The transport\<close>

text \<open>
  Modelled from the spec: \<open>BaseReader\<close> and \<open>BaseWriter\<close> of the streams module, which
  is not among the source files. Section 6: \<open>read(max_bytes, timeout)\<close> gives bytes or
  fails with a read timeout, \<open>write(bytes, timeout)\<close> gives nothing or fails with a
  write timeout, \<open>close()\<close> gives nothing. The peer is a script: the reads still to
  come, each a chunk or a timeout; a read past the end of the script is the peer staying
  silent, a timeout. The writer carries how many writes succeed before one times out
  (\<open>None\<close>: all of them) and whether it was closed.
\<close>

datatype read_result = Chunk wire | TimesOut

type_synonym Reader = "read_result list"

record Writer =
  writes_before_timeout :: "nat option"
  writer_closed :: bool

fun reader_read :: "Reader \<Rightarrow> OptionalTimeout \<Rightarrow> (error + wire) \<times> Reader" where
  "reader_read [] timeout = (Inl ReadTimeout, [])"
| "reader_read (TimesOut # rest) timeout = (Inl ReadTimeout, rest)"
| "reader_read (Chunk data # rest) timeout = (Inr data, rest)"

fun writer_write :: "wire option \<Rightarrow> OptionalTimeout \<Rightarrow> Writer \<Rightarrow> (error + unit) \<times> Writer" where
  "writer_write None timeout w = (Inl TypeError, w)"
| "writer_write (Some data) timeout w =
     (case writes_before_timeout w of
        None \<Rightarrow> (Inr (), w)
      | Some 0 \<Rightarrow> (Inl WriteTimeout, w)
      | Some (Suc n) \<Rightarrow> (Inr (), w\<lparr>writes_before_timeout := Some n\<rparr>))"

definition writer_close :: "Writer \<Rightarrow> Writer" where
  "writer_close w = w\<lparr>writer_closed := True\<rparr>"

section \<open>Requests and responses\<close>

text \<open>
  Modelled from the spec: \<open>Request\<close> and \<open>Response\<close> of the models module, which is
  not among the source files. Section 3: a request is method, target path, header list
  and a body that is a sequence of byte chunks; a response is status code, reason
  text, protocol label, header list, body and close hook. The body of a response and
  its close hook are bound to the driver that built it, so reading and closing a
  response take the driver's state and return it. Closing a response, explicitly or
  after the body has been read to its end, is what runs the close hook; closing twice
  is a no-op.
\<close>

record Request =
  req_method :: string
  req_full_path :: string
  req_headers :: header_list
  req_stream :: "string list"

record Response =
  status_code :: int
  reason :: string
  protocol :: string
  headers :: header_list
  content :: "string option"
  is_stream_consumed :: bool
  response_is_closed :: bool

section \<open>The HTTP/1.1 driver (http11.py)\<close>

text \<open>
  What the driver does to the outside, in order: an event accepted by the state machine
  for the wire, a chunk written to the transport, a read of the transport, the close of
  the transport, a call of the release hook.
\<close>

datatype action =
    Emitted h11_event
  | Wrote wire
  | ReadCall
  | WriterClosed
  | Released string

text \<open>
  The fields of \<open>HTTP11Connection.__init__\<close>; \<open>on_release\<close> is the name of the
  callback, when one was supplied. \<open>log\<close> records the actions so far.
\<close>

record HTTP11Connection =
  reader :: Reader
  writer :: Writer
  on_release :: "string option"
  h11_state :: h11_Connection
  log :: "action list"

definition HTTP11Connection_init :: "Reader \<Rightarrow> Writer \<Rightarrow> string option \<Rightarrow> HTTP11Connection" where
  "HTTP11Connection_init rd wr rel =
     \<lparr>reader = rd, writer = wr, on_release = rel, h11_state = h11_new, log = []\<rparr>"

text \<open>\<open>_send_event\<close>, lines 114-116.\<close>

definition send_event ::
  "h11_event \<Rightarrow> OptionalTimeout \<Rightarrow> HTTP11Connection \<Rightarrow> (error + unit) \<times> HTTP11Connection" where
  "send_event event timeout c =
     (case h11_send event (h11_state c) of
        (Inl e, h) \<Rightarrow> (Inl e, c\<lparr>h11_state := h\<rparr>)
      | (Inr data, h) \<Rightarrow>
          (let c1 = c\<lparr>h11_state := h, log := log c @ [Emitted event]\<rparr> in
           case writer_write data timeout (writer c1) of
             (Inl e, w) \<Rightarrow> (Inl e, c1\<lparr>writer := w\<rparr>)
           | (Inr u, w) \<Rightarrow>
               (Inr (), c1\<lparr>writer := w, log := log c1 @ [Wrote (case data of None \<Rightarrow> [] | Some d \<Rightarrow> d)]\<rparr>)))"

text \<open>
  \<open>_receive_event\<close>, lines 118-126: ask the state machine, and while it needs data,
  read the transport and ask again.
\<close>

function receive_event ::
  "OptionalTimeout \<Rightarrow> HTTP11Connection \<Rightarrow> (error + h11_next) \<times> HTTP11Connection" where
  "receive_event timeout c =
     (case h11_next_event (h11_state c) of
        (Inl e, h) \<Rightarrow> (Inl e, c\<lparr>h11_state := h\<rparr>)
      | (Inr NEED_DATA, h) \<Rightarrow>
          (case reader_read (reader c) timeout of
             (Inl e, rd) \<Rightarrow>
               (Inl e, c\<lparr>h11_state := h, reader := rd, log := log c @ [ReadCall]\<rparr>)
           | (Inr data, rd) \<Rightarrow>
               receive_event timeout
                 (c\<lparr>h11_state := h11_receive_data data h, reader := rd,
                    log := log c @ [ReadCall]\<rparr>))
      | (Inr event, h) \<Rightarrow> (Inr event, c\<lparr>h11_state := h\<rparr>))"
  by pat_completeness auto

termination receive_event
proof -
  have shorter: "length rd' < length rd" if "reader_read rd t = (Inr data, rd')"
    for rd t data rd'
    using that by (cases "(rd, t)" rule: reader_read.cases) auto
  show ?thesis
    by (relation "measure (\<lambda>(t, c). length (reader c))") (auto dest: shorter [OF sym])
qed

declare receive_event.simps [simp del]

text \<open>
  What is still to come from the peer: the events waiting in the receive buffer and the
  reads left in the script. Every data event \<open>_receive_event\<close> returns uses some of it
  up, which is why draining a body ends.
\<close>

fun read_result_size :: "read_result \<Rightarrow> nat" where
  "read_result_size (Chunk data) = Suc (length data)"
| "read_result_size TimesOut = 1"

definition pending :: "HTTP11Connection \<Rightarrow> nat" where
  "pending c = length (receive_buffer (h11_state c)) + sum_list (map read_result_size (reader c))"

text \<open>
  \<open>_body_iter\<close>, lines 107-112, read to its end: the payloads of the data events up to
  the end-of-message event; any other event fails the assertion.
\<close>

function body_iter ::
  "OptionalTimeout \<Rightarrow> string list \<Rightarrow> HTTP11Connection \<Rightarrow> (error + string list) \<times> HTTP11Connection" where
  "body_iter timeout acc c =
     (case receive_event timeout c of
        (Inl e, c1) \<Rightarrow> (Inl e, c1)
      | (Inr (Event (h11_Data d)), c1) \<Rightarrow> body_iter timeout (acc @ [d]) c1
      | (Inr (Event h11_EndOfMessage), c1) \<Rightarrow> (Inr acc, c1)
      | (Inr other, c1) \<Rightarrow> (Inl AssertionError, c1))"
  by pat_completeness auto

termination body_iter
proof -
  have fire_buffer: "receive_buffer (fire_state_triggered_transitions h) = receive_buffer h"
    for h
    by (simp add: fire_state_triggered_transitions_def Let_def)
  have server_buffer: "receive_buffer h' = receive_buffer h"
    if "process_server_event ev h = Some h'" for ev h h'
    using that
    by (auto simp: process_server_event_def process_keep_alive_def fire_buffer
             split: option.splits if_splits)
  have next_Data: "receive_buffer h = h11_Data d # receive_buffer h'"
    if "h11_next_event h = (Inr (Event (h11_Data d)), h')" for h d h'
    using that
    by (auto simp: h11_next_event_def split: if_splits list.splits option.splits
             dest: server_buffer)
  have next_NEED_DATA: "h' = h \<and> receive_buffer h = []"
    if "h11_next_event h = (Inr NEED_DATA, h')" for h h'
    using that
    by (auto simp: h11_next_event_def split: if_splits list.splits option.splits)
  have read_size:
    "sum_list (map read_result_size rd) = Suc (length data) + sum_list (map read_result_size rd')"
    if "reader_read rd t = (Inr data, rd')" for rd t data rd'
    using that by (cases "(rd, t)" rule: reader_read.cases) auto
  have less: "pending c' < pending c"
    if "receive_event t c = (Inr (Event (h11_Data d)), c')" for t c d c'
    using that
  proof (induction t c rule: receive_event.induct)
    case (1 timeout c)
    obtain r h where nx: "h11_next_event (h11_state c) = (r, h)"
      by (cases "h11_next_event (h11_state c)")
    show ?case
    proof (cases r)
      case (Inl e)
      with nx "1.prems" show ?thesis by (simp add: receive_event.simps)
    next
      case (Inr ev)
      show ?thesis
      proof (cases ev)
        case NEED_DATA
        obtain r2 rd where rr: "reader_read (reader c) timeout = (r2, rd)"
          by (cases "reader_read (reader c) timeout")
        from nx Inr NEED_DATA have hh: "h = h11_state c" "receive_buffer (h11_state c) = []"
          by (auto dest: next_NEED_DATA)
        show ?thesis
        proof (cases r2)
          case (Inl e)
          with nx Inr NEED_DATA rr "1.prems" show ?thesis by (simp add: receive_event.simps)
        next
          case (Inr data)
          let ?c1 = "c\<lparr>h11_state := h11_receive_data data h, reader := rd,
                        log := log c @ [ReadCall]\<rparr>"
          from nx \<open>r = Inr ev\<close> NEED_DATA rr Inr "1.prems"
          have "receive_event timeout ?c1 = (Inr (Event (h11_Data d)), c')"
            by (simp add: receive_event.simps [of timeout c])
          with "1.IH" [OF nx [symmetric] \<open>r = Inr ev\<close> NEED_DATA rr [symmetric] Inr]
          have "pending c' < pending ?c1" by simp
          moreover from rr Inr hh have "pending ?c1 < pending c"
            by (auto simp: pending_def h11_receive_data_def dest: read_size)
          ultimately show ?thesis by simp
        qed
      next
        case PAUSED
        with nx Inr "1.prems" show ?thesis by (simp add: receive_event.simps)
      next
        case (Event e)
        with nx Inr "1.prems" have "e = h11_Data d" "c' = c\<lparr>h11_state := h\<rparr>"
          by (simp_all add: receive_event.simps)
        with nx Inr Event show ?thesis
          by (auto simp: pending_def dest: next_Data)
      qed
    qed
  qed
  show ?thesis
    by (relation "measure (\<lambda>(t, acc, c). pending c)") (auto dest: less [OF sym])
qed

declare body_iter.simps [simp del]

text \<open>
  \<open>close\<close>, lines 95-105: the connection-closed event goes into the state machine, an
  \<open>h11.ProtocolError\<close> it raises is passed over, any other error propagates, and the
  writer is closed.
\<close>

definition close :: "HTTP11Connection \<Rightarrow> (error + unit) \<times> HTTP11Connection" where
  "close c =
     (case h11_send h11_ConnectionClosed (h11_state c) of
        (Inl e, h) \<Rightarrow>
          (if is_ProtocolError e
           then (Inr (), c\<lparr>h11_state := h, writer := writer_close (writer c),
                            log := log c @ [WriterClosed]\<rparr>)
           else (Inl e, c\<lparr>h11_state := h\<rparr>))
      | (Inr data, h) \<Rightarrow>
          (Inr (), c\<lparr>h11_state := h, writer := writer_close (writer c),
                     log := log c @ [WriterClosed]\<rparr>))"

text \<open>The release hook, lines 137-138: called when one was supplied.\<close>

definition call_on_release :: "HTTP11Connection \<Rightarrow> HTTP11Connection" where
  "call_on_release c =
     (case on_release c of
        None \<Rightarrow> c
      | Some f \<Rightarrow> c\<lparr>log := log c @ [Released f]\<rparr>)"

text \<open>\<open>response_closed\<close>, lines 128-138.\<close>

definition response_closed :: "HTTP11Connection \<Rightarrow> (error + unit) \<times> HTTP11Connection" where
  "response_closed c =
     (if our_state (h11_state c) = DONE \<and> their_state (h11_state c) = DONE
      then (case h11_start_next_cycle (h11_state c) of
              Inl e \<Rightarrow> (Inl e, c)
            | Inr h \<Rightarrow> (Inr (), call_on_release (c\<lparr>h11_state := h\<rparr>)))
      else (case close c of
              (Inl e, c1) \<Rightarrow> (Inl e, c1)
            | (Inr u, c1) \<Rightarrow> (Inr (), call_on_release c1)))"

text \<open>The \<open>is_closed\<close> property, lines 140-142.\<close>

definition HTTP11Connection_is_closed :: "HTTP11Connection \<Rightarrow> bool" where
  "HTTP11Connection_is_closed c =
     (our_state (h11_state c) = CLOSED \<or> our_state (h11_state c) = ERROR)"

text \<open>
  Modelled from the spec: \<open>Response.close\<close> and \<open>Response.read\<close> of the models module,
  for a response whose close hook is \<open>response_closed\<close> and whose body is \<open>_body_iter\<close>
  (lines 76-85). Closing runs the hook the first time and is a no-op afterwards.
  Reading pulls the body to its end in a single forward pass, closes the response after
  the last chunk, and keeps the bytes; a body that was read or a response that was
  closed cannot be read.
\<close>

definition Response_close ::
  "Response \<Rightarrow> HTTP11Connection \<Rightarrow> (error + unit) \<times> Response \<times> HTTP11Connection" where
  "Response_close r c =
     (if response_is_closed r then (Inr (), r, c)
      else (case response_closed c of
              (res, c1) \<Rightarrow> (res, r\<lparr>response_is_closed := True\<rparr>, c1)))"

definition Response_read ::
  "OptionalTimeout \<Rightarrow> Response \<Rightarrow> HTTP11Connection \<Rightarrow>
   (error + string) \<times> Response \<times> HTTP11Connection" where
  "Response_read timeout r c =
     (case content r of
        Some bytes \<Rightarrow> (Inr bytes, r, c)
      | None \<Rightarrow>
          (if is_stream_consumed r then (Inl StreamConsumed, r, c)
           else if response_is_closed r then (Inl ResponseClosed, r, c)
           else (case body_iter timeout [] c of
                   (Inl e, c1) \<Rightarrow> (Inl e, r\<lparr>is_stream_consumed := True\<rparr>, c1)
                 | (Inr parts, c1) \<Rightarrow>
                     (case Response_close (r\<lparr>is_stream_consumed := True\<rparr>) c1 of
                        (Inl e, r2, c2) \<Rightarrow> (Inl e, r2, c2)
                      | (Inr u, r2, c2) \<Rightarrow>
                          (Inr (concat parts), r2\<lparr>content := Some (concat parts)\<rparr>, c2)))))"

text \<open>
  \<open>send\<close>, lines 46-93, in the four parts its comments name. Sending the body is the
  \<open>async for\<close> over the chunks of the request.
\<close>

fun send_body ::
  "string list \<Rightarrow> OptionalTimeout \<Rightarrow> HTTP11Connection \<Rightarrow> (error + unit) \<times> HTTP11Connection" where
  "send_body [] timeout c = (Inr (), c)"
| "send_body (data # rest) timeout c =
     (case send_event (h11_Data data) timeout c of
        (Inl e, c1) \<Rightarrow> (Inl e, c1)
      | (Inr u, c1) \<Rightarrow> send_body rest timeout c1)"

definition send_request ::
  "Request \<Rightarrow> OptionalTimeout \<Rightarrow> HTTP11Connection \<Rightarrow> (error + unit) \<times> HTTP11Connection" where
  "send_request request timeout c =
     (case send_event (h11_Request (req_method request) (req_full_path request)
                         (req_headers request)) timeout c of
        (Inl e, c1) \<Rightarrow> (Inl e, c1)
      | (Inr u, c1) \<Rightarrow>
          (case send_body (req_stream request) timeout c1 of
             (Inl e, c2) \<Rightarrow> (Inl e, c2)
           | (Inr u, c2) \<Rightarrow> send_event h11_EndOfMessage timeout c2))"

text \<open>
  Lines 67-72: one event is received; if it is an informational response, one more is
  received; the event then at hand must be a response.
\<close>

fun is_InformationalResponse :: "h11_next \<Rightarrow> bool" where
  "is_InformationalResponse (Event (h11_InformationalResponse s hs)) = True"
| "is_InformationalResponse _ = False"

definition start_response ::
  "OptionalTimeout \<Rightarrow> HTTP11Connection \<Rightarrow> (error + Response) \<times> HTTP11Connection" where
  "start_response timeout c =
     (case receive_event timeout c of
        (Inl e, c1) \<Rightarrow> (Inl e, c1)
      | (Inr event, c1) \<Rightarrow>
          (case (if is_InformationalResponse event then receive_event timeout c1
                 else (Inr event, c1)) of
             (Inl e, c2) \<Rightarrow> (Inl e, c2)
           | (Inr (Event (h11_Response status rsn hs)), c2) \<Rightarrow>
               (Inr \<lparr>status_code = status, reason = rsn, protocol = ''HTTP/1.1'',
                     headers = hs, content = None, is_stream_consumed = False,
                     response_is_closed = False\<rparr>, c2)
           | (Inr other, c2) \<Rightarrow> (Inl AssertionError, c2)))"

text \<open>
  Lines 87-93: unless the caller asked for a stream, the response is read inside
  \<open>try\<close> and closed inside \<open>finally\<close>; an error of the close replaces an error of the
  read.
\<close>

definition finish_response ::
  "bool \<Rightarrow> OptionalTimeout \<Rightarrow> Response \<Rightarrow> HTTP11Connection \<Rightarrow>
   (error + Response) \<times> HTTP11Connection" where
  "finish_response stream timeout response c =
     (if \<not> stream
      then (case Response_read timeout response c of
              (res, r1, c1) \<Rightarrow>
                (case Response_close r1 c1 of
                   (Inl e2, r2, c2) \<Rightarrow> (Inl e2, c2)
                 | (Inr u, r2, c2) \<Rightarrow>
                     (case res of
                        Inl e \<Rightarrow> (Inl e, c2)
                      | Inr bytes \<Rightarrow> (Inr r2, c2))))
      else (Inr response, c))"

definition send ::
  "Request \<Rightarrow> OptionalTimeout \<Rightarrow> bool \<Rightarrow> HTTP11Connection \<Rightarrow>
   (error + Response) \<times> HTTP11Connection" where
  "send request timeout stream c =
     (case send_request request timeout c of
        (Inl e, c1) \<Rightarrow> (Inl e, c1)
      | (Inr u, c1) \<Rightarrow>
          (case start_response timeout c1 of
             (Inl e, c2) \<Rightarrow> (Inl e, c2)
           | (Inr response, c2) \<Rightarrow> finish_response stream timeout response c2))"

section \<open>The connection facade (connection.py)\<close>

text \<open>
  The fields of \<open>HTTPConnection.__init__\<close>. The HTTP/2 driver is the class
  \<open>HTTP2Connection\<close> of the http2 module, which is not among the source files: its
  state is the type parameter \<open>'h2\<close>, and its constructor, \<open>send\<close>, \<open>close\<close> and
  \<open>is_closed\<close> are parameters of the functions that call them.
\<close>

record Origin =
  hostname :: string
  port :: nat
  is_ssl :: bool

record 'h2 HTTPConnection =
  origin :: Origin
  ssl :: string
  timeout :: OptionalTimeout
  release_func :: "string option"
  h11_connection :: "HTTP11Connection option"
  h2_connection :: "'h2 option"

definition HTTPConnection_init ::
  "Origin \<Rightarrow> string \<Rightarrow> OptionalTimeout \<Rightarrow> string option \<Rightarrow> 'h2 HTTPConnection" where
  "HTTPConnection_init org s t rel =
     \<lparr>origin = org, ssl = s, timeout = t, release_func = rel,
      h11_connection = None, h2_connection = None\<rparr>"

datatype Protocol = HTTP_11 | HTTP_2

text \<open>
  \<open>connect\<close>, lines 49-70. \<open>established\<close> is what the \<open>connect\<close> function of the streams
  module gives for the origin: an error, or reader, writer and negotiated protocol.
\<close>

definition HTTPConnection_connect ::
  "(Reader \<Rightarrow> Writer \<Rightarrow> string option \<Rightarrow> 'h2) \<Rightarrow> error + Reader \<times> Writer \<times> Protocol \<Rightarrow>
   'h2 HTTPConnection \<Rightarrow> (error + unit) \<times> 'h2 HTTPConnection" where
  "HTTPConnection_connect h2_init established conn =
     (let on_rel = release_func conn in
      case established of
        Inl e \<Rightarrow> (Inl e, conn)
      | Inr (rd, wr, proto) \<Rightarrow>
          (if proto = HTTP_2
           then (Inr (), conn\<lparr>h2_connection := Some (h2_init rd wr on_rel)\<rparr>)
           else (Inr (), conn\<lparr>h11_connection := Some (HTTP11Connection_init rd wr on_rel)\<rparr>)))"

text \<open>\<open>send\<close>, lines 37-47.\<close>

definition HTTPConnection_send ::
  "(Reader \<Rightarrow> Writer \<Rightarrow> string option \<Rightarrow> 'h2) \<Rightarrow>
   (Request \<Rightarrow> OptionalTimeout \<Rightarrow> bool \<Rightarrow> 'h2 \<Rightarrow> (error + Response) \<times> 'h2) \<Rightarrow>
   error + Reader \<times> Writer \<times> Protocol \<Rightarrow>
   Request \<Rightarrow> OptionalTimeout \<Rightarrow> bool \<Rightarrow> 'h2 HTTPConnection \<Rightarrow>
   (error + Response) \<times> 'h2 HTTPConnection" where
  "HTTPConnection_send h2_init h2_send established request tmo stream conn =
     (case (if h11_connection conn = None \<and> h2_connection conn = None
            then HTTPConnection_connect h2_init established conn
            else (Inr (), conn)) of
        (Inl e, conn1) \<Rightarrow> (Inl e, conn1)
      | (Inr u, conn1) \<Rightarrow>
          (case h2_connection conn1 of
             Some d2 \<Rightarrow>
               (case h2_send request tmo stream d2 of
                  (res, d2') \<Rightarrow> (res, conn1\<lparr>h2_connection := Some d2'\<rparr>))
           | None \<Rightarrow>
               (case h11_connection conn1 of
                  None \<Rightarrow> (Inl AssertionError, conn1)
                | Some d \<Rightarrow>
                    (case send request tmo stream d of
                       (res, d') \<Rightarrow> (res, conn1\<lparr>h11_connection := Some d'\<rparr>)))))"

text \<open>\<open>close\<close>, lines 72-76.\<close>

definition HTTPConnection_close ::
  "('h2 \<Rightarrow> (error + unit) \<times> 'h2) \<Rightarrow> 'h2 HTTPConnection \<Rightarrow>
   (error + unit) \<times> 'h2 HTTPConnection" where
  "HTTPConnection_close h2_close conn =
     (case h2_connection conn of
        Some d2 \<Rightarrow>
          (case h2_close d2 of (res, d2') \<Rightarrow> (res, conn\<lparr>h2_connection := Some d2'\<rparr>))
      | None \<Rightarrow>
          (case h11_connection conn of
             Some d \<Rightarrow>
               (case close d of (res, d') \<Rightarrow> (res, conn\<lparr>h11_connection := Some d'\<rparr>))
           | None \<Rightarrow> (Inr (), conn)))"

text \<open>The \<open>is_http2\<close> and \<open>is_closed\<close> properties, lines 78-88.\<close>

definition HTTPConnection_is_http2 :: "'h2 HTTPConnection \<Rightarrow> bool" where
  "HTTPConnection_is_http2 conn = (h2_connection conn \<noteq> None)"

definition HTTPConnection_is_closed ::
  "('h2 \<Rightarrow> bool) \<Rightarrow> 'h2 HTTPConnection \<Rightarrow> error + bool" where
  "HTTPConnection_is_closed h2_is_closed conn =
     (case h2_connection conn of
        Some d2 \<Rightarrow> Inr (h2_is_closed d2)
      | None \<Rightarrow>
          (case h11_connection conn of
             None \<Rightarrow> Inl AssertionError
           | Some d \<Rightarrow> Inr (HTTP11Connection_is_closed d)))"

text \<open>
  A stand-in for the HTTP/2 driver where an example needs one: its state is whether it
  is closed.
\<close>

definition example_h2_is_closed :: "bool \<Rightarrow> bool" where
  "example_h2_is_closed d = d"

definition example_h2_close :: "bool \<Rightarrow> (error + unit) \<times> bool" where
  "example_h2_close d = (Inr (), True)"

section \<open>Reading the log\<close>

text \<open>
  The actions on the request side of the wire, the calls of the release hook, and the
  reads, picked out of a log.
\<close>

fun is_wire_action :: "action \<Rightarrow> bool" where
  "is_wire_action (Emitted ev) = True"
| "is_wire_action (Wrote data) = True"
| "is_wire_action _ = False"

fun is_Released :: "action \<Rightarrow> bool" where
  "is_Released (Released f) = True"
| "is_Released _ = False"

text \<open>
  The events of one request in the order of lines 51-65, and the actions that emitting
  and writing each of them in turn leaves in the log.
\<close>

definition request_events :: "Request \<Rightarrow> h11_event list" where
  "request_events request =
     h11_Request (req_method request) (req_full_path request) (req_headers request)
       # map h11_Data (req_stream request) @ [h11_EndOfMessage]"

fun wire_actions :: "h11_event list \<Rightarrow> action list" where
  "wire_actions [] = []"
| "wire_actions (ev # evs) = Emitted ev # Wrote [ev] # wire_actions evs"

text \<open>The entry the release hook leaves in the log, if the driver has one.\<close>

definition release_actions :: "HTTP11Connection \<Rightarrow> action list" where
  "release_actions c = (case on_release c of None \<Rightarrow> [] | Some f \<Rightarrow> [Released f])"

text \<open>
  The state machine after the first \<open>k\<close> reads of the script have been received: the
  state it is in when the read after them is issued.
\<close>

fun feed :: "h11_Connection \<Rightarrow> read_result list \<Rightarrow> h11_Connection" where
  "feed h [] = h"
| "feed h (Chunk data # rest) = feed (h11_receive_data data h) rest"
| "feed h (TimesOut # rest) = feed h rest"

definition after_reads :: "nat \<Rightarrow> HTTP11Connection \<Rightarrow> h11_Connection" where
  "after_reads k c = feed (h11_state c) (take k (reader c))"

section \<open>The facade: \<open>is_closed\<close> and \<open>close\<close>\<close>

text \<open>
  C2, as the code has it. With no driver bound, \<open>is_closed\<close> fails the assertion of
  line 87 and returns nothing; with the HTTP/1.1 driver bound it returns that driver's
  terminal-state check, and with the HTTP/2 driver bound that driver's \<open>is_closed\<close>.
\<close>

theorem is_closed_by_binding:
  "(h2_connection conn = None \<and> h11_connection conn = None \<longrightarrow>
      HTTPConnection_is_closed h2_is_closed conn = Inl AssertionError)
   \<and> (h2_connection conn = None \<and> h11_connection conn = Some d \<longrightarrow>
      HTTPConnection_is_closed h2_is_closed conn = Inr (HTTP11Connection_is_closed d))
   \<and> (h2_connection conn = Some d2 \<longrightarrow>
      HTTPConnection_is_closed h2_is_closed conn = Inr (h2_is_closed d2))"
  by (simp add: HTTPConnection_is_closed_def)

theorem is_closed_by_binding_witness:
  "HTTPConnection_is_closed example_h2_is_closed
     \<lparr>origin = \<lparr>hostname = ''example.org'', port = 443, is_ssl = True\<rparr>, ssl = ''default'',
      timeout = None, release_func = None, h11_connection = None,
      h2_connection = None\<rparr> = Inl AssertionError
   \<and> HTTPConnection_is_closed example_h2_is_closed
     \<lparr>origin = \<lparr>hostname = ''example.org'', port = 80, is_ssl = False\<rparr>, ssl = ''default'',
      timeout = None, release_func = None,
      h11_connection = Some (HTTP11Connection_init []
         \<lparr>writes_before_timeout = None, writer_closed = False\<rparr> None),
      h2_connection = None\<rparr> = Inr False
   \<and> HTTPConnection_is_closed example_h2_is_closed
     \<lparr>origin = \<lparr>hostname = ''example.org'', port = 443, is_ssl = True\<rparr>, ssl = ''default'',
      timeout = None, release_func = None, h11_connection = None,
      h2_connection = Some True\<rparr> = Inr True"
  using
    is_closed_by_binding [of "\<lparr>origin = \<lparr>hostname = ''example.org'', port = 443, is_ssl = True\<rparr>,
      ssl = ''default'', timeout = None, release_func = None, h11_connection = None,
      h2_connection = None\<rparr>" example_h2_is_closed]
    is_closed_by_binding [of "\<lparr>origin = \<lparr>hostname = ''example.org'', port = 80, is_ssl = False\<rparr>,
      ssl = ''default'', timeout = None, release_func = None,
      h11_connection = Some (HTTP11Connection_init []
         \<lparr>writes_before_timeout = None, writer_closed = False\<rparr> None),
      h2_connection = None\<rparr>" example_h2_is_closed
      "HTTP11Connection_init [] \<lparr>writes_before_timeout = None, writer_closed = False\<rparr> None"]
    is_closed_by_binding [of "\<lparr>origin = \<lparr>hostname = ''example.org'', port = 443, is_ssl = True\<rparr>,
      ssl = ''default'', timeout = None, release_func = None, h11_connection = None,
      h2_connection = Some True\<rparr>" example_h2_is_closed _ True]
  by (simp add: HTTP11Connection_init_def HTTP11Connection_is_closed_def
        h11_new_def example_h2_is_closed_def)

text \<open>
  C2, as the spec states it, fails: on a connection that was just constructed, with no
  driver bound, \<open>is_closed\<close> does not return true.
\<close>

theorem is_closed_unconnected_not_True:
  "HTTPConnection_is_closed example_h2_is_closed
     (HTTPConnection_init \<lparr>hostname = ''example.org'', port = 443, is_ssl = True\<rparr>
        ''default'' None None) \<noteq> Inr True"
  by code_simp

text \<open>
  C9. With no driver bound, \<open>close\<close> returns normally and the facade is what it was.
  With a driver bound, the outcome is the outcome of that driver's \<open>close\<close>, and the
  facade differs from what it was in that driver only.
\<close>

theorem close_by_binding:
  "(h2_connection conn = None \<and> h11_connection conn = None \<longrightarrow>
      HTTPConnection_close h2_close conn = (Inr (), conn))
   \<and> (h2_connection conn = None \<and> h11_connection conn = Some d \<longrightarrow>
      HTTPConnection_close h2_close conn =
        (fst (close d), conn\<lparr>h11_connection := Some (snd (close d))\<rparr>))
   \<and> (h2_connection conn = Some d2 \<longrightarrow>
      HTTPConnection_close h2_close conn =
        (fst (h2_close d2), conn\<lparr>h2_connection := Some (snd (h2_close d2))\<rparr>))"
  by (simp add: HTTPConnection_close_def split: prod.splits)

theorem close_by_binding_witness:
  "HTTPConnection_close example_h2_close
     \<lparr>origin = \<lparr>hostname = ''example.org'', port = 443, is_ssl = True\<rparr>, ssl = ''default'',
      timeout = None, release_func = Some ''release_connection'', h11_connection = None,
      h2_connection = None\<rparr>
   = (Inr (),
     \<lparr>origin = \<lparr>hostname = ''example.org'', port = 443, is_ssl = True\<rparr>, ssl = ''default'',
      timeout = None, release_func = Some ''release_connection'', h11_connection = None,
      h2_connection = None\<rparr>)
   \<and> HTTPConnection_close example_h2_close
     \<lparr>origin = \<lparr>hostname = ''example.org'', port = 80, is_ssl = False\<rparr>, ssl = ''default'',
      timeout = None, release_func = None,
      h11_connection = Some (HTTP11Connection_init []
         \<lparr>writes_before_timeout = None, writer_closed = False\<rparr> None),
      h2_connection = None\<rparr>
   = (Inr (),
     \<lparr>origin = \<lparr>hostname = ''example.org'', port = 80, is_ssl = False\<rparr>, ssl = ''default'',
      timeout = None, release_func = None,
      h11_connection = Some
        \<lparr>reader = [], writer = \<lparr>writes_before_timeout = None, writer_closed = True\<rparr>,
         on_release = None,
         h11_state = \<lparr>our_state = CLOSED, their_state = MUST_CLOSE, keep_alive = True,
                      receive_buffer = [], receive_buffer_closed = False\<rparr>,
         log = [WriterClosed]\<rparr>,
      h2_connection = None\<rparr>)
   \<and> HTTPConnection_close example_h2_close
     \<lparr>origin = \<lparr>hostname = ''example.org'', port = 443, is_ssl = True\<rparr>, ssl = ''default'',
      timeout = None, release_func = None, h11_connection = None,
      h2_connection = Some False\<rparr>
   = (Inr (),
     \<lparr>origin = \<lparr>hostname = ''example.org'', port = 443, is_ssl = True\<rparr>, ssl = ''default'',
      timeout = None, release_func = None, h11_connection = None,
      h2_connection = Some True\<rparr>)"
proof -
  have close_new:
    "close (HTTP11Connection_init [] \<lparr>writes_before_timeout = None, writer_closed = False\<rparr> None)
     = (Inr (), \<lparr>reader = [], writer = \<lparr>writes_before_timeout = None, writer_closed = True\<rparr>,
         on_release = None,
         h11_state = \<lparr>our_state = CLOSED, their_state = MUST_CLOSE, keep_alive = True,
                      receive_buffer = [], receive_buffer_closed = False\<rparr>,
         log = [WriterClosed]\<rparr>)"
    by code_simp
  show ?thesis
    using
      close_by_binding [of "\<lparr>origin = \<lparr>hostname = ''example.org'', port = 443, is_ssl = True\<rparr>,
        ssl = ''default'', timeout = None, release_func = Some ''release_connection'',
        h11_connection = None, h2_connection = None\<rparr>" example_h2_close]
      close_by_binding [of "\<lparr>origin = \<lparr>hostname = ''example.org'', port = 80, is_ssl = False\<rparr>,
        ssl = ''default'', timeout = None, release_func = None,
        h11_connection = Some (HTTP11Connection_init []
           \<lparr>writes_before_timeout = None, writer_closed = False\<rparr> None),
        h2_connection = None\<rparr>" example_h2_close
        "HTTP11Connection_init [] \<lparr>writes_before_timeout = None, writer_closed = False\<rparr> None"]
      close_by_binding [of "\<lparr>origin = \<lparr>hostname = ''example.org'', port = 443, is_ssl = True\<rparr>,
        ssl = ''default'', timeout = None, release_func = None, h11_connection = None,
        h2_connection = Some False\<rparr>" example_h2_close _ False]
    by (simp add: close_new example_h2_close_def)
qed

section \<open>Informational responses\<close>

text \<open>
  C1 at a concrete exchange: the peer answers \<open>GET /\<close> with two informational
  responses, 100 and 102, and then with 200. \<open>send\<close> takes the first informational
  response, receives once more, holds the second informational response, and fails
  the assertion of line 72: the caller gets an \<open>AssertionError\<close> and no response.
\<close>

theorem send_two_informational_AssertionError:
  "fst (send \<lparr>req_method = ''GET'', req_full_path = ''/'', req_headers = [], req_stream = []\<rparr>
          None False
          (HTTP11Connection_init
             [Chunk [h11_InformationalResponse 100 [], h11_InformationalResponse 102 [],
                     h11_Response 200 ''OK'' [], h11_EndOfMessage]]
             \<lparr>writes_before_timeout = None, writer_closed = False\<rparr> None))
   = Inl AssertionError"
  by code_simp

section \<open>Closing the driver\<close>

text \<open>
  The state machine raises nothing but \<open>LocalProtocolError\<close> on a send, so \<open>close\<close>
  always reaches the writer.
\<close>

lemma h11_send_error: "h11_send ev h = (Inl e, h') \<Longrightarrow> e = LocalProtocolError"
  by (auto simp: h11_send_def split: if_splits option.splits)

lemma close_eq:
  "close c = (Inr (), c\<lparr>h11_state := snd (h11_send h11_ConnectionClosed (h11_state c)),
                        writer := writer_close (writer c), log := log c @ [WriterClosed]\<rparr>)"
proof (cases "h11_send h11_ConnectionClosed (h11_state c)")
  case (Pair r h)
  show ?thesis
  proof (cases r)
    case (Inl e)
    with Pair have "e = LocalProtocolError" by (auto dest: h11_send_error)
    with Pair Inl show ?thesis by (simp add: close_def)
  next
    case (Inr data)
    with Pair show ?thesis by (simp add: close_def)
  qed
qed

lemma h11_send_closed_twice:
  "snd (h11_send h11_ConnectionClosed (snd (h11_send h11_ConnectionClosed h)))
   = snd (h11_send h11_ConnectionClosed h)"
  by (cases "our_state h"; cases "their_state h"; cases "keep_alive h")
     (simp_all add: h11_send_def process_client_event_def process_keep_alive_def
        fire_state_triggered_transitions_def Let_def)

text \<open>
  C6. \<open>close\<close> never raises, whatever the state machine does with the
  connection-closed event; the state machine is left where that event took it; the
  writer is closed and nothing else is done to the transport. A second \<open>close\<close> does
  not raise either and leaves state machine, writer, reader and hook as the first left
  them: it closes the closed writer once more, which the log records.
\<close>

theorem close_suppresses_closes_idempotent:
  "fst (close c) = Inr ()
   \<and> h11_state (snd (close c)) = snd (h11_send h11_ConnectionClosed (h11_state c))
   \<and> writer_closed (writer (snd (close c)))
   \<and> log (snd (close c)) = log c @ [WriterClosed]
   \<and> reader (snd (close c)) = reader c
   \<and> fst (close (snd (close c))) = Inr ()
   \<and> h11_state (snd (close (snd (close c)))) = h11_state (snd (close c))
   \<and> writer (snd (close (snd (close c)))) = writer (snd (close c))
   \<and> reader (snd (close (snd (close c)))) = reader (snd (close c))
   \<and> on_release (snd (close (snd (close c)))) = on_release (snd (close c))"
  by (simp add: close_eq h11_send_closed_twice writer_close_def)

text \<open>
  An instance: in the middle of a request body the state machine rejects the
  connection-closed event, and \<open>close\<close> returns normally with the writer closed and the
  local machine in \<open>ERROR\<close>.
\<close>

theorem close_suppresses_closes_idempotent_witness:
  "fst (h11_send h11_ConnectionClosed
          (h11_new\<lparr>our_state := SEND_BODY, their_state := SEND_RESPONSE\<rparr>))
     = Inl LocalProtocolError
   \<and> fst (close (HTTP11Connection_init []
              \<lparr>writes_before_timeout = None, writer_closed = False\<rparr> None
              \<lparr>h11_state := h11_new\<lparr>our_state := SEND_BODY, their_state := SEND_RESPONSE\<rparr>\<rparr>))
     = Inr ()
   \<and> writer_closed (writer (snd (close (HTTP11Connection_init []
              \<lparr>writes_before_timeout = None, writer_closed = False\<rparr> None
              \<lparr>h11_state := h11_new\<lparr>our_state := SEND_BODY, their_state := SEND_RESPONSE\<rparr>\<rparr>))))
   \<and> our_state (h11_state (snd (close (HTTP11Connection_init []
              \<lparr>writes_before_timeout = None, writer_closed = False\<rparr> None
              \<lparr>h11_state := h11_new\<lparr>our_state := SEND_BODY, their_state := SEND_RESPONSE\<rparr>\<rparr>))))
     = ERROR"
proof -
  have raised: "h11_send h11_ConnectionClosed
          (h11_new\<lparr>our_state := SEND_BODY, their_state := SEND_RESPONSE\<rparr>)
     = (Inl LocalProtocolError, h11_new\<lparr>our_state := ERROR, their_state := SEND_RESPONSE\<rparr>)"
    by code_simp
  show ?thesis
    using close_suppresses_closes_idempotent [of "HTTP11Connection_init []
              \<lparr>writes_before_timeout = None, writer_closed = False\<rparr> None
              \<lparr>h11_state := h11_new\<lparr>our_state := SEND_BODY, their_state := SEND_RESPONSE\<rparr>\<rparr>"]
    by (simp add: raised)
qed

section \<open>Closing a response\<close>

lemma call_on_release_eq: "call_on_release c = c\<lparr>log := log c @ release_actions c\<rparr>"
  by (simp add: call_on_release_def release_actions_def split: option.splits)

lemma release_actions_count:
  "length (filter is_Released (release_actions c)) = (if on_release c = None then 0 else 1)"
  by (simp add: release_actions_def split: option.splits)

text \<open>
  C3. With both machines done, \<open>response_closed\<close> sets both to idle, touches nothing
  else, and then calls the hook. Otherwise it runs \<open>close\<close>, which does not raise, and
  then calls the hook. Either way the log grows by one release entry when a hook was
  supplied and by none otherwise, and that entry comes last.
\<close>

theorem response_closed_reuse_or_close:
  "(our_state (h11_state c) = DONE \<and> their_state (h11_state c) = DONE \<longrightarrow>
      response_closed c =
        (Inr (), c\<lparr>h11_state := (h11_state c)\<lparr>our_state := IDLE, their_state := IDLE\<rparr>,
                   log := log c @ release_actions c\<rparr>))
   \<and> (\<not> (our_state (h11_state c) = DONE \<and> their_state (h11_state c) = DONE) \<longrightarrow>
      fst (close c) = Inr () \<and>
      response_closed c =
        (Inr (), (snd (close c))\<lparr>log := log c @ [WriterClosed] @ release_actions c\<rparr>))
   \<and> length (filter is_Released (log (snd (response_closed c))))
       = length (filter is_Released (log c)) + (if on_release c = None then 0 else 1)"
  by (simp add: response_closed_def h11_start_next_cycle_def close_eq call_on_release_eq
        release_actions_def split: option.splits)

theorem response_closed_reuse_or_close_witness:
  "response_closed
     \<lparr>reader = [], writer = \<lparr>writes_before_timeout = None, writer_closed = False\<rparr>,
      on_release = Some ''release_connection'',
      h11_state = \<lparr>our_state = DONE, their_state = DONE, keep_alive = True,
                   receive_buffer = [], receive_buffer_closed = False\<rparr>,
      log = []\<rparr>
   = (Inr (),
     \<lparr>reader = [], writer = \<lparr>writes_before_timeout = None, writer_closed = False\<rparr>,
      on_release = Some ''release_connection'',
      h11_state = \<lparr>our_state = IDLE, their_state = IDLE, keep_alive = True,
                   receive_buffer = [], receive_buffer_closed = False\<rparr>,
      log = [Released ''release_connection'']\<rparr>)
   \<and> response_closed
     \<lparr>reader = [], writer = \<lparr>writes_before_timeout = None, writer_closed = False\<rparr>,
      on_release = Some ''release_connection'',
      h11_state = \<lparr>our_state = DONE, their_state = SEND_BODY, keep_alive = True,
                   receive_buffer = [], receive_buffer_closed = False\<rparr>,
      log = []\<rparr>
   = (Inr (),
     \<lparr>reader = [], writer = \<lparr>writes_before_timeout = None, writer_closed = True\<rparr>,
      on_release = Some ''release_connection'',
      h11_state = \<lparr>our_state = CLOSED, their_state = SEND_BODY, keep_alive = True,
                   receive_buffer = [], receive_buffer_closed = False\<rparr>,
      log = [WriterClosed, Released ''release_connection'']\<rparr>)"
proof -
  have closed: "close
     \<lparr>reader = [], writer = \<lparr>writes_before_timeout = None, writer_closed = False\<rparr>,
      on_release = Some ''release_connection'',
      h11_state = \<lparr>our_state = DONE, their_state = SEND_BODY, keep_alive = True,
                   receive_buffer = [], receive_buffer_closed = False\<rparr>,
      log = []\<rparr>
   = (Inr (),
     \<lparr>reader = [], writer = \<lparr>writes_before_timeout = None, writer_closed = True\<rparr>,
      on_release = Some ''release_connection'',
      h11_state = \<lparr>our_state = CLOSED, their_state = SEND_BODY, keep_alive = True,
                   receive_buffer = [], receive_buffer_closed = False\<rparr>,
      log = [WriterClosed]\<rparr>)"
    by code_simp
  show ?thesis
    using
      response_closed_reuse_or_close [of "\<lparr>reader = [],
        writer = \<lparr>writes_before_timeout = None, writer_closed = False\<rparr>,
        on_release = Some ''release_connection'',
        h11_state = \<lparr>our_state = DONE, their_state = DONE, keep_alive = True,
                     receive_buffer = [], receive_buffer_closed = False\<rparr>,
        log = []\<rparr>"]
      response_closed_reuse_or_close [of "\<lparr>reader = [],
        writer = \<lparr>writes_before_timeout = None, writer_closed = False\<rparr>,
        on_release = Some ''release_connection'',
        h11_state = \<lparr>our_state = DONE, their_state = SEND_BODY, keep_alive = True,
                     receive_buffer = [], receive_buffer_closed = False\<rparr>,
        log = []\<rparr>"]
    by (simp add: closed release_actions_def)
qed

section \<open>Receiving events\<close>

text \<open>
  When the state machine has an event or an error at hand, \<open>_receive_event\<close> returns it
  as it is. In general it adds nothing to the log but reads, leaves writer and hook
  alone, and reads only after the state machine asked for data.
\<close>

lemma receive_event_no_read:
  "h11_next_event (h11_state c) = (Inr ev, h) \<Longrightarrow> ev \<noteq> NEED_DATA \<Longrightarrow>
   receive_event t c = (Inr ev, c\<lparr>h11_state := h\<rparr>)"
  by (cases ev) (simp_all add: receive_event.simps)

lemma receive_event_raise:
  "h11_next_event (h11_state c) = (Inl e, h) \<Longrightarrow>
   receive_event t c = (Inl e, c\<lparr>h11_state := h\<rparr>)"
  by (simp add: receive_event.simps)

lemma receive_event_frame:
  "receive_event t c = (r, c') \<Longrightarrow>
   (\<exists>n. log c' = log c @ replicate n ReadCall
        \<and> (if n = 0 then reader c' = reader c
            else fst (h11_next_event (h11_state c)) = Inr NEED_DATA))
   \<and> writer c' = writer c \<and> on_release c' = on_release c"
proof (induction t c arbitrary: r c' rule: receive_event.induct)
  case (1 timeout c)
  obtain r0 h where nx: "h11_next_event (h11_state c) = (r0, h)"
    by (cases "h11_next_event (h11_state c)")
  show ?case
  proof (cases r0)
    case (Inl e)
    with nx "1.prems" have "c' = c\<lparr>h11_state := h\<rparr>" by (simp add: receive_event.simps)
    then show ?thesis by simp
  next
    case (Inr ev)
    show ?thesis
    proof (cases "ev = NEED_DATA")
      case False
      with nx Inr "1.prems" have "c' = c\<lparr>h11_state := h\<rparr>"
        by (simp add: receive_event_no_read)
      then show ?thesis by simp
    next
      case True
      obtain r2 rd where rr: "reader_read (reader c) timeout = (r2, rd)"
        by (cases "reader_read (reader c) timeout")
      show ?thesis
      proof (cases r2)
        case (Inl e)
        with nx Inr True rr "1.prems"
        have "c' = c\<lparr>h11_state := h, reader := rd, log := log c @ [ReadCall]\<rparr>"
          by (simp add: receive_event.simps)
        with nx \<open>r0 = Inr ev\<close> True show ?thesis
          by (auto intro!: exI [of _ "Suc 0"])
      next
        case (Inr data)
        let ?c1 = "c\<lparr>h11_state := h11_receive_data data h, reader := rd,
                      log := log c @ [ReadCall]\<rparr>"
        from nx \<open>r0 = Inr ev\<close> True rr Inr "1.prems"
        have "receive_event timeout ?c1 = (r, c')"
          by (simp add: receive_event.simps [of timeout c])
        from "1.IH" [OF nx [symmetric] \<open>r0 = Inr ev\<close> True rr [symmetric] Inr this]
        obtain n where "log c' = log ?c1 @ replicate n ReadCall"
          "writer c' = writer c" "on_release c' = on_release c"
          by auto
        with nx \<open>r0 = Inr ev\<close> True show ?thesis
          by (auto intro!: exI [of _ "Suc n"] simp: replicate_app_Cons_same)
      qed
    qed
  qed
qed

text \<open>
  A body that has arrived whole, data events and the end of the message, is delivered
  from the receive buffer.
\<close>

lemma fire_their_SEND_BODY:
  "their_state h = SEND_BODY \<Longrightarrow> their_state (fire_state_triggered_transitions h) = SEND_BODY"
  by (simp add: fire_state_triggered_transitions_def Let_def)

lemma fire_receive_buffer:
  "receive_buffer (fire_state_triggered_transitions h) = receive_buffer h"
  by (simp add: fire_state_triggered_transitions_def Let_def)

lemma next_event_Data_ready:
  assumes "their_state h = SEND_BODY" "receive_buffer h = h11_Data d # rest"
  shows "\<exists>h'. h11_next_event h = (Inr (Event (h11_Data d)), h')
            \<and> their_state h' = SEND_BODY \<and> receive_buffer h' = rest"
  using assms
  by (simp add: h11_next_event_def process_server_event_def process_keep_alive_def
        fire_their_SEND_BODY fire_receive_buffer)

lemma next_event_EndOfMessage_ready:
  assumes "their_state h = SEND_BODY" "receive_buffer h = h11_EndOfMessage # rest"
  shows "\<exists>h'. h11_next_event h = (Inr (Event h11_EndOfMessage), h') \<and> receive_buffer h' = rest"
  using assms
  by (simp add: h11_next_event_def process_server_event_def process_keep_alive_def
        fire_receive_buffer)

lemma body_iter_buffered:
  "their_state (h11_state c) = SEND_BODY \<Longrightarrow>
   receive_buffer (h11_state c) = map h11_Data ds @ h11_EndOfMessage # rest \<Longrightarrow>
   \<exists>c'. body_iter t acc c = (Inr (acc @ ds), c') \<and> reader c' = reader c \<and> log c' = log c
        \<and> writer c' = writer c \<and> receive_buffer (h11_state c') = rest"
proof (induction ds arbitrary: acc c)
  case Nil
  then obtain h' where "h11_next_event (h11_state c) = (Inr (Event h11_EndOfMessage), h')"
    "receive_buffer h' = rest"
    using next_event_EndOfMessage_ready [of "h11_state c" rest] by auto
  then show ?case
    by (simp add: body_iter.simps [of t acc c] receive_event_no_read)
next
  case (Cons d ds)
  then obtain h' where h': "h11_next_event (h11_state c) = (Inr (Event (h11_Data d)), h')"
    "their_state h' = SEND_BODY" "receive_buffer h' = map h11_Data ds @ h11_EndOfMessage # rest"
    using next_event_Data_ready [of "h11_state c" d "map h11_Data ds @ h11_EndOfMessage # rest"]
    by auto
  from Cons.IH [of "c\<lparr>h11_state := h'\<rparr>" "acc @ [d]"] h'
  obtain c' where "body_iter t (acc @ [d]) (c\<lparr>h11_state := h'\<rparr>) = (Inr (acc @ d # ds), c')"
    "reader c' = reader c" "log c' = log c" "writer c' = writer c"
    "receive_buffer (h11_state c') = rest"
    by auto
  with h' show ?case
    by (simp add: body_iter.simps [of t acc c] receive_event_no_read)
qed

text \<open>
  When the state machine needs data, \<open>_receive_event\<close> reads once and asks again. Every
  read it issues finds the state machine, fed with the reads before it, reporting
  \<open>NEED_DATA\<close>.
\<close>

lemma next_event_NEED_DATA_same:
  "h11_next_event h = (Inr NEED_DATA, h') \<Longrightarrow> h' = h"
  by (auto simp: h11_next_event_def split: if_splits list.splits option.splits)

lemma receive_event_step:
  "h11_next_event (h11_state c) = (Inr NEED_DATA, h) \<Longrightarrow>
   receive_event t c =
     (case reader_read (reader c) t of
        (Inl e, rd) \<Rightarrow> (Inl e, c\<lparr>h11_state := h, reader := rd, log := log c @ [ReadCall]\<rparr>)
      | (Inr data, rd) \<Rightarrow>
          receive_event t (c\<lparr>h11_state := h11_receive_data data h, reader := rd,
                             log := log c @ [ReadCall]\<rparr>))"
  by (simp add: receive_event.simps [of t c])

lemma reader_read_Inr: "reader_read rd t = (Inr data, rd') \<Longrightarrow> rd = Chunk data # rd'"
  by (cases "(rd, t)" rule: reader_read.cases) auto

lemma receive_event_each_read:
  "receive_event t c = (r, c') \<Longrightarrow> log c' = log c @ replicate n ReadCall \<Longrightarrow> k < n \<Longrightarrow>
   fst (h11_next_event (after_reads k c)) = Inr NEED_DATA"
proof (induction t c arbitrary: n k rule: receive_event.induct)
  case (1 timeout c)
  obtain r0 h where nx: "h11_next_event (h11_state c) = (r0, h)"
    by (cases "h11_next_event (h11_state c)")
  show ?case
  proof (cases r0)
    case (Inl e)
    with nx "1.prems" show ?thesis by (auto simp: receive_event_raise)
  next
    case (Inr ev)
    show ?thesis
    proof (cases "ev = NEED_DATA")
      case False
      with nx Inr "1.prems" show ?thesis by (auto simp: receive_event_no_read)
    next
      case True
      with nx Inr have hh: "h = h11_state c" by (simp add: next_event_NEED_DATA_same)
      from nx Inr True have first: "fst (h11_next_event (after_reads 0 c)) = Inr NEED_DATA"
        by (simp add: after_reads_def)
      obtain r2 rd where rr: "reader_read (reader c) timeout = (r2, rd)"
        by (cases "reader_read (reader c) timeout")
      show ?thesis
      proof (cases r2)
        case (Inl e)
        with nx Inr True rr "1.prems"(1)
        have "log c' = log c @ [ReadCall]"
          by (auto simp: receive_event_step)
        with "1.prems"(2) have "replicate n ReadCall = [ReadCall]" by simp
        then have "length (replicate n ReadCall) = length [ReadCall]" by (rule arg_cong)
        then have "n = 1" by simp
        with "1.prems" first show ?thesis by simp
      next
        case (Inr data)
        let ?c1 = "c\<lparr>h11_state := h11_receive_data data h, reader := rd,
                      log := log c @ [ReadCall]\<rparr>"
        from nx \<open>r0 = Inr ev\<close> True rr Inr "1.prems"
        have run: "receive_event timeout ?c1 = (r, c')"
          by (simp add: receive_event_step)
        from receive_event_frame [OF run]
        obtain m where m: "log c' = log ?c1 @ replicate m ReadCall" by auto
        with "1.prems"(2) have "replicate n ReadCall = ReadCall # replicate m ReadCall"
          by simp
        then have "length (replicate n ReadCall) = length (ReadCall # replicate m ReadCall)"
          by (rule arg_cong)
        then have n: "n = Suc m" by simp
        from rr Inr have rd: "reader c = Chunk data # rd" by (simp add: reader_read_Inr)
        show ?thesis
        proof (cases k)
          case 0
          with first show ?thesis by simp
        next
          case (Suc j)
          with "1.prems"(3) n have "j < m" by simp
          from "1.IH" [OF nx [symmetric] \<open>r0 = Inr ev\<close> True rr [symmetric] Inr run m this]
          have "fst (h11_next_event (after_reads j ?c1)) = Inr NEED_DATA" .
          moreover from rd hh Suc have "after_reads k c = after_reads j ?c1"
            by (simp add: after_reads_def)
          ultimately show ?thesis by simp
        qed
      qed
    qed
  qed
qed

text \<open>
  C8. An event or an error the state machine has at hand is returned with the driver
  otherwise untouched, so with no read. When it reports \<open>NEED_DATA\<close>, there is one read,
  and then the same again on what was read. If \<open>_receive_event\<close> changed the log or
  the reader, the state machine had reported \<open>NEED_DATA\<close>; all it adds to the log are
  reads, and before each of them the state machine, having received the reads before
  it, reported \<open>NEED_DATA\<close>. \<open>_body_iter\<close> touches the transport through
  \<open>_receive_event\<close> only, and a body whose data events and end-of-message event are in
  the receive buffer is iterated to its end with the reader and the log as they were.
\<close>

theorem receive_event_reads_only_on_NEED_DATA:
  "(h11_next_event (h11_state c) = (Inr ev, h) \<and> ev \<noteq> NEED_DATA \<longrightarrow>
      receive_event t c = (Inr ev, c\<lparr>h11_state := h\<rparr>))
   \<and> (h11_next_event (h11_state c) = (Inl e, h) \<longrightarrow>
      receive_event t c = (Inl e, c\<lparr>h11_state := h\<rparr>))
   \<and> (h11_next_event (h11_state c) = (Inr NEED_DATA, h) \<longrightarrow>
      receive_event t c =
        (case reader_read (reader c) t of
           (Inl e, rd) \<Rightarrow>
             (Inl e, c\<lparr>h11_state := h, reader := rd, log := log c @ [ReadCall]\<rparr>)
         | (Inr data, rd) \<Rightarrow>
             receive_event t (c\<lparr>h11_state := h11_receive_data data h, reader := rd,
                                log := log c @ [ReadCall]\<rparr>)))
   \<and> (log (snd (receive_event t c)) \<noteq> log c \<or> reader (snd (receive_event t c)) \<noteq> reader c \<longrightarrow>
      fst (h11_next_event (h11_state c)) = Inr NEED_DATA)
   \<and> (\<exists>n. log (snd (receive_event t c)) = log c @ replicate n ReadCall)
   \<and> (log (snd (receive_event t c)) = log c @ replicate n ReadCall \<and> k < n \<longrightarrow>
      fst (h11_next_event (after_reads k c)) = Inr NEED_DATA)
   \<and> body_iter t acc c =
        (case receive_event t c of
           (Inl e, c1) \<Rightarrow> (Inl e, c1)
         | (Inr (Event (h11_Data d)), c1) \<Rightarrow> body_iter t (acc @ [d]) c1
         | (Inr (Event h11_EndOfMessage), c1) \<Rightarrow> (Inr acc, c1)
         | (Inr other, c1) \<Rightarrow> (Inl AssertionError, c1))
   \<and> (their_state (h11_state c) = SEND_BODY \<and>
      receive_buffer (h11_state c) = map h11_Data ds @ h11_EndOfMessage # rest \<longrightarrow>
      fst (body_iter t acc c) = Inr (acc @ ds)
      \<and> reader (snd (body_iter t acc c)) = reader c
      \<and> log (snd (body_iter t acc c)) = log c
      \<and> receive_buffer (h11_state (snd (body_iter t acc c))) = rest)"
proof -
  obtain r c' where rc: "receive_event t c = (r, c')" by (cases "receive_event t c")
  from receive_event_frame [OF rc]
  obtain m where m: "log c' = log c @ replicate m ReadCall"
    "if m = 0 then reader c' = reader c else fst (h11_next_event (h11_state c)) = Inr NEED_DATA"
    by auto
  have a: "h11_next_event (h11_state c) = (Inr ev, h) \<and> ev \<noteq> NEED_DATA \<longrightarrow>
      receive_event t c = (Inr ev, c\<lparr>h11_state := h\<rparr>)"
    by (simp add: receive_event_no_read)
  have a': "h11_next_event (h11_state c) = (Inl e, h) \<longrightarrow>
      receive_event t c = (Inl e, c\<lparr>h11_state := h\<rparr>)"
    by (simp add: receive_event_raise)
  have s: "h11_next_event (h11_state c) = (Inr NEED_DATA, h) \<longrightarrow>
      receive_event t c =
        (case reader_read (reader c) t of
           (Inl e, rd) \<Rightarrow>
             (Inl e, c\<lparr>h11_state := h, reader := rd, log := log c @ [ReadCall]\<rparr>)
         | (Inr data, rd) \<Rightarrow>
             receive_event t (c\<lparr>h11_state := h11_receive_data data h, reader := rd,
                                log := log c @ [ReadCall]\<rparr>))"
    by (simp add: receive_event_step)
  have b: "log (snd (receive_event t c)) \<noteq> log c \<or> reader (snd (receive_event t c)) \<noteq> reader c \<longrightarrow>
      fst (h11_next_event (h11_state c)) = Inr NEED_DATA"
    using rc m by (cases "m = 0") auto
  have ex: "\<exists>n. log (snd (receive_event t c)) = log c @ replicate n ReadCall"
    using rc m by auto
  have each: "log (snd (receive_event t c)) = log c @ replicate n ReadCall \<and> k < n \<longrightarrow>
      fst (h11_next_event (after_reads k c)) = Inr NEED_DATA"
    using rc receive_event_each_read [of t c r c' n k] by simp
  have bi: "body_iter t acc c =
        (case receive_event t c of
           (Inl e, c1) \<Rightarrow> (Inl e, c1)
         | (Inr (Event (h11_Data d)), c1) \<Rightarrow> body_iter t (acc @ [d]) c1
         | (Inr (Event h11_EndOfMessage), c1) \<Rightarrow> (Inr acc, c1)
         | (Inr other, c1) \<Rightarrow> (Inl AssertionError, c1))"
    by (rule body_iter.simps)
  have d: "their_state (h11_state c) = SEND_BODY \<and>
      receive_buffer (h11_state c) = map h11_Data ds @ h11_EndOfMessage # rest \<longrightarrow>
      fst (body_iter t acc c) = Inr (acc @ ds)
      \<and> reader (snd (body_iter t acc c)) = reader c
      \<and> log (snd (body_iter t acc c)) = log c
      \<and> receive_buffer (h11_state (snd (body_iter t acc c))) = rest"
    using body_iter_buffered [of c ds rest t acc] by auto
  from a a' s b ex each bi d show ?thesis by blast
qed

text \<open>
  An instance: a data event and the end of the message in the receive buffer are
  delivered with the one chunk of the reader left; with an empty buffer the state
  machine reports \<open>NEED_DATA\<close> and one read delivers the data event.
\<close>

theorem receive_event_reads_only_on_NEED_DATA_witness:
  "receive_event None
       \<lparr>reader = [Chunk [h11_Response 200 ''OK'' []]],
        writer = \<lparr>writes_before_timeout = None, writer_closed = False\<rparr>, on_release = None,
        h11_state = \<lparr>our_state = DONE, their_state = SEND_BODY, keep_alive = True,
                     receive_buffer = [h11_Data ''hello'', h11_EndOfMessage],
                     receive_buffer_closed = False\<rparr>,
        log = []\<rparr>
     = (Inr (Event (h11_Data ''hello'')),
       \<lparr>reader = [Chunk [h11_Response 200 ''OK'' []]],
        writer = \<lparr>writes_before_timeout = None, writer_closed = False\<rparr>, on_release = None,
        h11_state = \<lparr>our_state = DONE, their_state = SEND_BODY, keep_alive = True,
                     receive_buffer = [h11_EndOfMessage],
                     receive_buffer_closed = False\<rparr>,
        log = []\<rparr>)
   \<and> fst (body_iter None []
       \<lparr>reader = [Chunk [h11_Response 200 ''OK'' []]],
        writer = \<lparr>writes_before_timeout = None, writer_closed = False\<rparr>, on_release = None,
        h11_state = \<lparr>our_state = DONE, their_state = SEND_BODY, keep_alive = True,
                     receive_buffer = [h11_Data ''hello'', h11_EndOfMessage],
                     receive_buffer_closed = False\<rparr>,
        log = []\<rparr>) = Inr [''hello'']
   \<and> reader (snd (body_iter None []
       \<lparr>reader = [Chunk [h11_Response 200 ''OK'' []]],
        writer = \<lparr>writes_before_timeout = None, writer_closed = False\<rparr>, on_release = None,
        h11_state = \<lparr>our_state = DONE, their_state = SEND_BODY, keep_alive = True,
                     receive_buffer = [h11_Data ''hello'', h11_EndOfMessage],
                     receive_buffer_closed = False\<rparr>,
        log = []\<rparr>)) = [Chunk [h11_Response 200 ''OK'' []]]
   \<and> log (snd (body_iter None []
       \<lparr>reader = [Chunk [h11_Response 200 ''OK'' []]],
        writer = \<lparr>writes_before_timeout = None, writer_closed = False\<rparr>, on_release = None,
        h11_state = \<lparr>our_state = DONE, their_state = SEND_BODY, keep_alive = True,
                     receive_buffer = [h11_Data ''hello'', h11_EndOfMessage],
                     receive_buffer_closed = False\<rparr>,
        log = []\<rparr>)) = []
   \<and> receive_event None
       \<lparr>reader = [Chunk [h11_Data ''hello'']],
        writer = \<lparr>writes_before_timeout = None, writer_closed = False\<rparr>, on_release = None,
        h11_state = \<lparr>our_state = DONE, their_state = SEND_BODY, keep_alive = True,
                     receive_buffer = [], receive_buffer_closed = False\<rparr>,
        log = []\<rparr>
     = (Inr (Event (h11_Data ''hello'')),
       \<lparr>reader = [],
        writer = \<lparr>writes_before_timeout = None, writer_closed = False\<rparr>, on_release = None,
        h11_state = \<lparr>our_state = DONE, their_state = SEND_BODY, keep_alive = True,
                     receive_buffer = [], receive_buffer_closed = False\<rparr>,
        log = [ReadCall]\<rparr>)
   \<and> fst (h11_next_event (h11_state
       \<lparr>reader = [Chunk [h11_Data ''hello'']],
        writer = \<lparr>writes_before_timeout = None, writer_closed = False\<rparr>, on_release = None,
        h11_state = \<lparr>our_state = DONE, their_state = SEND_BODY, keep_alive = True,
                     receive_buffer = [], receive_buffer_closed = False\<rparr>,
        log = []\<rparr>)) = Inr NEED_DATA
   \<and> fst (h11_next_event (after_reads 0
       \<lparr>reader = [Chunk [h11_Data ''hello'']],
        writer = \<lparr>writes_before_timeout = None, writer_closed = False\<rparr>, on_release = None,
        h11_state = \<lparr>our_state = DONE, their_state = SEND_BODY, keep_alive = True,
                     receive_buffer = [], receive_buffer_closed = False\<rparr>,
        log = []\<rparr>)) = Inr NEED_DATA"
proof -
  let ?c0 = "\<lparr>reader = [Chunk [h11_Response 200 ''OK'' []]],
        writer = \<lparr>writes_before_timeout = None, writer_closed = False\<rparr>, on_release = None,
        h11_state = \<lparr>our_state = DONE, their_state = SEND_BODY, keep_alive = True,
                     receive_buffer = [h11_Data ''hello'', h11_EndOfMessage],
                     receive_buffer_closed = False\<rparr>,
        log = []\<rparr>"
  let ?c1 = "\<lparr>reader = [Chunk [h11_Data ''hello'']],
        writer = \<lparr>writes_before_timeout = None, writer_closed = False\<rparr>, on_release = None,
        h11_state = \<lparr>our_state = DONE, their_state = SEND_BODY, keep_alive = True,
                     receive_buffer = [], receive_buffer_closed = False\<rparr>,
        log = []\<rparr>"
  let ?h0 = "\<lparr>our_state = DONE, their_state = SEND_BODY, keep_alive = True,
        receive_buffer = [h11_EndOfMessage], receive_buffer_closed = False\<rparr>"
  have nx: "h11_next_event (h11_state ?c0) = (Inr (Event (h11_Data ''hello'')), ?h0)"
    by code_simp
  have ne: "Event (h11_Data ''hello'') \<noteq> NEED_DATA" by simp
  have buf: "their_state (h11_state ?c0) = SEND_BODY \<and>
      receive_buffer (h11_state ?c0) = map h11_Data [''hello''] @ h11_EndOfMessage # []"
    by simp
  note at0 = receive_event_reads_only_on_NEED_DATA [where c = ?c0
      and ev = "Event (h11_Data ''hello'')" and h = ?h0 and t = None
      and ds = "[''hello'']" and rest = "[]" and acc = "[]"]
  from at0 nx ne
  have "receive_event None ?c0 = (Inr (Event (h11_Data ''hello'')), ?c0\<lparr>h11_state := ?h0\<rparr>)"
    by blast
  then have first: "receive_event None ?c0 = (Inr (Event (h11_Data ''hello'')), \<lparr>reader = [Chunk [h11_Response 200 ''OK'' []]],
        writer = \<lparr>writes_before_timeout = None, writer_closed = False\<rparr>, on_release = None,
        h11_state = \<lparr>our_state = DONE, their_state = SEND_BODY, keep_alive = True,
                     receive_buffer = [h11_EndOfMessage],
                     receive_buffer_closed = False\<rparr>,
        log = []\<rparr>)"
    by simp
  from at0 buf
  have "fst (body_iter None [] ?c0) = Inr ([] @ [''hello''])
      \<and> reader (snd (body_iter None [] ?c0)) = reader ?c0
      \<and> log (snd (body_iter None [] ?c0)) = log ?c0"
    by blast
  then have body: "fst (body_iter None [] ?c0) = Inr [''hello'']"
    "reader (snd (body_iter None [] ?c0)) = [Chunk [h11_Response 200 ''OK'' []]]"
    "log (snd (body_iter None [] ?c0)) = []"
    by simp_all
  have need: "h11_next_event (h11_state ?c1) = (Inr NEED_DATA, h11_state ?c1)"
    by code_simp
  have run: "receive_event None ?c1 = (Inr (Event (h11_Data ''hello'')), \<lparr>reader = [],
        writer = \<lparr>writes_before_timeout = None, writer_closed = False\<rparr>, on_release = None,
        h11_state = \<lparr>our_state = DONE, their_state = SEND_BODY, keep_alive = True,
                     receive_buffer = [], receive_buffer_closed = False\<rparr>,
        log = [ReadCall]\<rparr>)"
    by code_simp
  then have lg: "log (snd (receive_event None ?c1)) = log ?c1 @ replicate 1 ReadCall \<and> (0::nat) < 1"
    by simp
  note at1 = receive_event_reads_only_on_NEED_DATA [where c = ?c1 and t = None
      and h = "h11_state ?c1" and n = 1 and k = 0]
  from at1 lg have each: "fst (h11_next_event (after_reads 0 ?c1)) = Inr NEED_DATA"
    by blast
  from need have nd: "fst (h11_next_event (h11_state ?c1)) = Inr NEED_DATA" by simp
  from first body run nd each show ?thesis by simp
qed

section \<open>Writing a request\<close>

text \<open>
  What \<open>_send_event\<close> leaves in the log: the emission and then the write when both
  succeed, the emission alone when the write fails, nothing when the state machine
  rejects the event. Over the request, the log grows by an initial part of the actions
  of its events, and by all of them when every step succeeds.
\<close>

lemma send_event_log:
  assumes "send_event ev t c = (r, c')" "ev \<noteq> h11_ConnectionClosed"
  shows "(\<exists>n. log c' = log c @ take n [Emitted ev, Wrote [ev]])
     \<and> (r = Inr () \<longrightarrow> log c' = log c @ [Emitted ev, Wrote [ev]])
     \<and> on_release c' = on_release c \<and> reader c' = reader c"
proof -
  obtain r0 h where hs: "h11_send ev (h11_state c) = (r0, h)"
    by (cases "h11_send ev (h11_state c)")
  show ?thesis
  proof (cases r0)
    case (Inl e)
    with hs assms have "c' = c\<lparr>h11_state := h\<rparr>" "r = Inl e"
      by (simp_all add: send_event_def)
    then show ?thesis by (auto intro: exI [of _ 0])
  next
    case (Inr data)
    with hs assms have data: "data = Some [ev]"
      by (auto simp: h11_send_def split: if_splits option.splits)
    let ?c1 = "c\<lparr>h11_state := h, log := log c @ [Emitted ev]\<rparr>"
    obtain r1 w where ww: "writer_write data t (writer ?c1) = (r1, w)"
      by (cases "writer_write data t (writer ?c1)")
    show ?thesis
    proof (cases r1)
      case (Inl e)
      with hs Inr ww assms have "c' = ?c1\<lparr>writer := w\<rparr>" "r = Inl e"
        by (simp_all add: send_event_def Let_def)
      then show ?thesis by (auto intro: exI [of _ 1])
    next
      case (Inr u)
      with hs \<open>r0 = Inr data\<close> ww assms
      have "c' = ?c1\<lparr>writer := w, log := log ?c1 @ [Wrote (case data of None \<Rightarrow> [] | Some d \<Rightarrow> d)]\<rparr>"
        "r = Inr ()"
        by (simp_all add: send_event_def Let_def)
      with data show ?thesis by (auto intro: exI [of _ 2])
    qed
  qed
qed

lemma take_pair_wire_actions:
  "take n [Emitted ev, Wrote [ev]] = take (min n 2) (wire_actions (ev # evs))"
  by (cases n; cases "n - 1") (auto simp: min_def)

lemma send_body_log:
  "send_body ds t c = (r, c') \<Longrightarrow>
   (\<exists>n. log c' = log c @ take n (wire_actions (map h11_Data ds)))
   \<and> (r = Inr () \<longrightarrow> log c' = log c @ wire_actions (map h11_Data ds))
   \<and> on_release c' = on_release c \<and> reader c' = reader c"
proof (induction ds arbitrary: c)
  case Nil
  then show ?case by auto
next
  case (Cons d ds)
  obtain r1 c1 where se: "send_event (h11_Data d) t c = (r1, c1)"
    by (cases "send_event (h11_Data d) t c")
  from send_event_log [OF se]
  have ex1: "\<exists>n. log c1 = log c @ take n [Emitted (h11_Data d), Wrote [h11_Data d]]"
    and full1: "r1 = Inr () \<longrightarrow> log c1 = log c @ [Emitted (h11_Data d), Wrote [h11_Data d]]"
    and fr1: "on_release c1 = on_release c" "reader c1 = reader c"
    by simp_all
  show ?case
  proof (cases r1)
    case (Inl e)
    with se Cons.prems have eq: "c' = c1" "r = Inl e" by simp_all
    from ex1 obtain n where "log c1 = log c @ take n [Emitted (h11_Data d), Wrote [h11_Data d]]" ..
    then have "log c1 = log c @ take (min n 2) (wire_actions (map h11_Data (d # ds)))"
      by (simp only: take_pair_wire_actions [of n "h11_Data d" "map h11_Data ds"] list.map)
    then have "\<exists>k. log c1 = log c @ take k (wire_actions (map h11_Data (d # ds)))" ..
    with eq fr1 show ?thesis by simp
  next
    case (Inr u)
    with se Cons.prems have rest: "send_body ds t c1 = (r, c')" by simp
    from full1 Inr have l1: "log c1 = log c @ [Emitted (h11_Data d), Wrote [h11_Data d]]"
      by simp
    from Cons.IH [OF rest]
    have ex: "\<exists>n. log c' = log c1 @ take n (wire_actions (map h11_Data ds))"
      and full: "r = Inr () \<longrightarrow> log c' = log c1 @ wire_actions (map h11_Data ds)"
      and fr: "on_release c' = on_release c1" "reader c' = reader c1"
      by blast+
    from ex obtain n where "log c' = log c1 @ take n (wire_actions (map h11_Data ds))" ..
    with l1 have "log c' = log c @ take (Suc (Suc n)) (wire_actions (map h11_Data (d # ds)))"
      by simp
    then have A: "\<exists>k. log c' = log c @ take k (wire_actions (map h11_Data (d # ds)))" ..
    from full l1 have B: "r = Inr () \<longrightarrow> log c' = log c @ wire_actions (map h11_Data (d # ds))"
      by simp
    from fr fr1 have C: "on_release c' = on_release c" "reader c' = reader c" by simp_all
    from A B C show ?thesis by blast
  qed
qed


lemma wire_actions_append: "wire_actions (xs @ ys) = wire_actions xs @ wire_actions ys"
  by (induction xs) simp_all

lemma wire_actions_only:
  "a \<in> set (wire_actions evs) \<Longrightarrow> is_wire_action a \<and> \<not> is_Released a"
  by (induction evs) auto

lemma filter_take_wire_actions:
  "filter is_wire_action (take n (wire_actions evs)) = take n (wire_actions evs)"
  "filter is_Released (take n (wire_actions evs)) = []"
  by (auto simp: filter_id_conv filter_empty_conv dest: in_set_takeD wire_actions_only)

lemma take_reaches_left: "l = l0 @ take n xs \<Longrightarrow> \<exists>k. l = l0 @ take k (xs @ ys)"
  by (rule exI [of _ "min n (length xs)"]) (simp add: min_def)

lemma take_reaches_mid: "l = l0 @ xs @ take n ys \<Longrightarrow> \<exists>k. l = l0 @ take k (xs @ ys @ zs)"
  by (rule exI [of _ "length xs + min n (length ys)"]) (simp add: min_def)

lemma take_reaches_right:
  "l = l0 @ xs @ ys @ take n zs \<Longrightarrow> \<exists>k. l = l0 @ take k (xs @ ys @ zs)"
  by (rule exI [of _ "length xs + length ys + n"]) simp

lemma send_request_log:
  assumes "send_request request t c = (r, c')"
  shows "(\<exists>n. log c' = log c @ take n (wire_actions (request_events request)))
     \<and> (r = Inr () \<longrightarrow> log c' = log c @ wire_actions (request_events request))
     \<and> on_release c' = on_release c \<and> reader c' = reader c"
proof -
  let ?rq = "h11_Request (req_method request) (req_full_path request) (req_headers request)"
  let ?X1 = "wire_actions [?rq]"
  let ?X2 = "wire_actions (map h11_Data (req_stream request))"
  let ?X3 = "wire_actions [h11_EndOfMessage]"
  have all: "wire_actions (request_events request) = ?X1 @ ?X2 @ ?X3"
    by (simp add: request_events_def wire_actions_append)
  obtain r1 c1 where p1: "send_event ?rq t c = (r1, c1)" by (cases "send_event ?rq t c")
  from send_event_log [OF p1]
  have ex1: "\<exists>n. log c1 = log c @ take n ?X1"
    and full1: "r1 = Inr () \<longrightarrow> log c1 = log c @ ?X1"
    and fr1: "on_release c1 = on_release c" "reader c1 = reader c"
    by simp_all
  show ?thesis
  proof (cases r1)
    case (Inl e)
    with p1 assms have eq: "c' = c1" "r = Inl e" by (simp_all add: send_request_def)
    from ex1 obtain n where "log c1 = log c @ take n ?X1" ..
    then have "\<exists>k. log c1 = log c @ take k (?X1 @ ?X2 @ ?X3)"
      by (rule take_reaches_left)
    then have "\<exists>k. log c1 = log c @ take k (wire_actions (request_events request))"
      unfolding all .
    with eq fr1 show ?thesis by simp
  next
    case (Inr u)
    with full1 have l1: "log c1 = log c @ ?X1" by simp
    obtain r2 c2 where p2: "send_body (req_stream request) t c1 = (r2, c2)"
      by (cases "send_body (req_stream request) t c1")
    from send_body_log [OF p2]
    have ex2: "\<exists>n. log c2 = log c1 @ take n ?X2"
      and full2: "r2 = Inr () \<longrightarrow> log c2 = log c1 @ ?X2"
      and fr2: "on_release c2 = on_release c1" "reader c2 = reader c1"
      by blast+
    show ?thesis
    proof (cases r2)
      case (Inl e)
      with p1 p2 \<open>r1 = Inr u\<close> assms have eq: "c' = c2" "r = Inl e"
        by (simp_all add: send_request_def)
      from ex2 obtain n where "log c2 = log c1 @ take n ?X2" ..
      with l1 have "log c2 = log c @ ?X1 @ take n ?X2"
        by (simp del: wire_actions.simps)
      then have "\<exists>k. log c2 = log c @ take k (?X1 @ ?X2 @ ?X3)"
        by (rule take_reaches_mid)
      then have "\<exists>k. log c2 = log c @ take k (wire_actions (request_events request))"
        unfolding all .
      with eq fr1 fr2 show ?thesis by simp
    next
      case (Inr u2)
      with full2 l1 have l2: "log c2 = log c @ ?X1 @ ?X2"
        by (simp del: wire_actions.simps)
      from p1 p2 \<open>r1 = Inr u\<close> Inr assms have p3: "send_event h11_EndOfMessage t c2 = (r, c')"
        by (simp add: send_request_def)
      from send_event_log [OF p3]
      have ex3: "\<exists>n. log c' = log c2 @ take n ?X3"
        and full3: "r = Inr () \<longrightarrow> log c' = log c2 @ ?X3"
        and fr3: "on_release c' = on_release c2" "reader c' = reader c2"
        by simp_all
      from ex3 obtain n where "log c' = log c2 @ take n ?X3" ..
      with l2 have "log c' = log c @ ?X1 @ ?X2 @ take n ?X3"
        by (simp del: wire_actions.simps)
      then have "\<exists>k. log c' = log c @ take k (?X1 @ ?X2 @ ?X3)"
        by (rule take_reaches_right)
      then have A: "\<exists>k. log c' = log c @ take k (wire_actions (request_events request))"
        unfolding all .
      from full3 l2 have B: "r = Inr () \<longrightarrow> log c' = log c @ wire_actions (request_events request)"
        unfolding all by (simp del: wire_actions.simps)
      from fr1 fr2 fr3 have C: "on_release c' = on_release c" "reader c' = reader c"
        by simp_all
      from A B C show ?thesis by blast
    qed
  qed
qed

section \<open>Reading a response\<close>

text \<open>
  Iterating the body adds nothing to the log but reads and leaves writer and hook
  alone.
\<close>

lemma body_iter_frame:
  "body_iter t acc c = (r, c') \<Longrightarrow>
   (\<exists>n. log c' = log c @ replicate n ReadCall)
   \<and> writer c' = writer c \<and> on_release c' = on_release c"
proof (induction t acc c arbitrary: r c' rule: body_iter.induct)
  case (1 timeout acc c)
  obtain r1 c1 where re: "receive_event timeout c = (r1, c1)"
    by (cases "receive_event timeout c")
  from receive_event_frame [OF re]
  obtain n where n: "log c1 = log c @ replicate n ReadCall"
    and fr: "writer c1 = writer c" "on_release c1 = on_release c"
    by auto
  show ?case
  proof (cases "\<exists>d. r1 = Inr (Event (h11_Data d))")
    case True
    then obtain d where d: "r1 = Inr (Event (h11_Data d))" ..
    with re "1.prems" have "body_iter timeout (acc @ [d]) c1 = (r, c')"
      by (simp add: body_iter.simps [of timeout acc c])
    from "1.IH" [OF re [symmetric] _ _ _ this] d
    obtain m where "log c' = log c1 @ replicate m ReadCall"
      "writer c' = writer c1" "on_release c' = on_release c1"
      by auto
    with n fr have "log c' = log c @ replicate (n + m) ReadCall"
      "writer c' = writer c" "on_release c' = on_release c"
      by (simp_all add: replicate_add)
    then show ?thesis by blast
  next
    case False
    with re "1.prems" have "c' = c1"
      by (auto simp: body_iter.simps [of timeout acc c]
               split: sum.splits h11_next.splits h11_event.splits)
    with n fr show ?thesis by blast
  qed
qed

text \<open>
  While the peer machine is sending its body, the next event is a data event, the end
  of the message, or a failure; a failure never leaves the peer machine done. The event
  that starts a response puts the peer machine there.
\<close>

lemma fire_their_ERROR:
  "their_state h = ERROR \<Longrightarrow> their_state (fire_state_triggered_transitions h) = ERROR"
  by (simp add: fire_state_triggered_transitions_def Let_def)

lemma process_keep_alive_their_SEND_BODY:
  "their_state h = SEND_BODY \<Longrightarrow> their_state (process_keep_alive ev h) = SEND_BODY"
  by (simp add: process_keep_alive_def fire_their_SEND_BODY)

lemma next_event_Response_state:
  "h11_next_event h = (Inr (Event (h11_Response s rs hs)), h') \<Longrightarrow> their_state h' = SEND_BODY"
  by (auto simp: h11_next_event_def process_server_event_def
           process_keep_alive_their_SEND_BODY fire_their_SEND_BODY
           split: if_splits list.splits option.splits
           elim!: server_transition.elims)

lemma next_event_in_SEND_BODY:
  assumes "their_state h = SEND_BODY" "h11_next_event h = (r, h')"
  shows "case r of
           Inl e \<Rightarrow> their_state h' = ERROR
         | Inr NEED_DATA \<Rightarrow> h' = h
         | Inr PAUSED \<Rightarrow> False
         | Inr (Event ev) \<Rightarrow>
             (\<exists>d. ev = h11_Data d \<and> their_state h' = SEND_BODY) \<or> ev = h11_EndOfMessage"
proof (cases "receive_buffer h")
  case Nil
  with assms show ?thesis
    by (auto simp: h11_next_event_def process_server_event_def fire_their_ERROR
             split: if_splits)
next
  case (Cons ev rest)
  with assms show ?thesis
    by (cases ev)
       (auto simp: h11_next_event_def process_server_event_def fire_their_ERROR
             process_keep_alive_their_SEND_BODY fire_their_SEND_BODY)
qed


lemma receive_data_their_state [simp]:
  "their_state (h11_receive_data data h) = their_state h"
  by (simp add: h11_receive_data_def)

lemma receive_event_Response_state:
  "receive_event t c = (Inr (Event (h11_Response s rs hs)), c') \<Longrightarrow>
   their_state (h11_state c') = SEND_BODY"
proof (induction t c rule: receive_event.induct)
  case (1 timeout c)
  obtain r0 h where nx: "h11_next_event (h11_state c) = (r0, h)"
    by (cases "h11_next_event (h11_state c)")
  show ?case
  proof (cases r0)
    case (Inl e)
    with nx "1.prems" show ?thesis by (simp add: receive_event_raise)
  next
    case (Inr ev)
    show ?thesis
    proof (cases "ev = NEED_DATA")
      case False
      with nx Inr "1.prems" have "ev = Event (h11_Response s rs hs)" "c' = c\<lparr>h11_state := h\<rparr>"
        by (simp_all add: receive_event_no_read)
      with nx Inr show ?thesis by (simp add: next_event_Response_state)
    next
      case True
      obtain r2 rd where rr: "reader_read (reader c) timeout = (r2, rd)"
        by (cases "reader_read (reader c) timeout")
      show ?thesis
      proof (cases r2)
        case (Inl e)
        with nx Inr True rr "1.prems" show ?thesis by (simp add: receive_event.simps)
      next
        case (Inr data)
        with nx \<open>r0 = Inr ev\<close> True rr "1.prems"
        have "receive_event timeout (c\<lparr>h11_state := h11_receive_data data h, reader := rd,
                      log := log c @ [ReadCall]\<rparr>) = (Inr (Event (h11_Response s rs hs)), c')"
          by (simp add: receive_event.simps [of timeout c])
        from "1.IH" [OF nx [symmetric] \<open>r0 = Inr ev\<close> True rr [symmetric] Inr this]
        show ?thesis .
      qed
    qed
  qed
qed

lemma receive_event_in_SEND_BODY:
  "their_state (h11_state c) = SEND_BODY \<Longrightarrow> receive_event t c = (r, c') \<Longrightarrow>
   (\<forall>e. r = Inl e \<longrightarrow> their_state (h11_state c') \<noteq> DONE)
   \<and> (\<forall>ev. r = Inr ev \<longrightarrow>
         (\<exists>d. ev = Event (h11_Data d) \<and> their_state (h11_state c') = SEND_BODY)
         \<or> ev = Event h11_EndOfMessage)"
proof (induction t c rule: receive_event.induct)
  case (1 timeout c)
  obtain r0 h where nx: "h11_next_event (h11_state c) = (r0, h)"
    by (cases "h11_next_event (h11_state c)")
  note st = next_event_in_SEND_BODY [OF "1.prems"(1) nx]
  show ?case
  proof (cases r0)
    case (Inl e)
    with nx "1.prems" st show ?thesis by (auto simp: receive_event_raise)
  next
    case (Inr ev)
    show ?thesis
    proof (cases "ev = NEED_DATA")
      case False
      with nx Inr "1.prems" have "r = Inr ev" "c' = c\<lparr>h11_state := h\<rparr>"
        by (simp_all add: receive_event_no_read)
      with st Inr False show ?thesis by (cases ev) auto
    next
      case True
      with st Inr have hh: "h = h11_state c" by simp
      obtain r2 rd where rr: "reader_read (reader c) timeout = (r2, rd)"
        by (cases "reader_read (reader c) timeout")
      show ?thesis
      proof (cases r2)
        case (Inl e)
        with nx Inr True rr "1.prems" hh show ?thesis by (auto simp: receive_event.simps)
      next
        case (Inr data)
        let ?c1 = "c\<lparr>h11_state := h11_receive_data data h, reader := rd,
                      log := log c @ [ReadCall]\<rparr>"
        from nx \<open>r0 = Inr ev\<close> True rr Inr "1.prems"
        have run: "receive_event timeout ?c1 = (r, c')"
          by (simp add: receive_event.simps [of timeout c])
        from hh "1.prems" have "their_state (h11_state ?c1) = SEND_BODY" by simp
        from "1.IH" [OF nx [symmetric] \<open>r0 = Inr ev\<close> True rr [symmetric] Inr this run]
        show ?thesis .
      qed
    qed
  qed
qed

lemma body_iter_failure_state:
  "their_state (h11_state c) = SEND_BODY \<Longrightarrow> body_iter t acc c = (Inl e, c') \<Longrightarrow>
   their_state (h11_state c') \<noteq> DONE"
proof (induction t acc c rule: body_iter.induct)
  case (1 timeout acc c)
  obtain r1 c1 where re: "receive_event timeout c = (r1, c1)"
    by (cases "receive_event timeout c")
  note st = receive_event_in_SEND_BODY [OF "1.prems"(1) re]
  show ?case
  proof (cases r1)
    case (Inl e1)
    with re "1.prems" st show ?thesis by (simp add: body_iter.simps [of timeout acc c])
  next
    case (Inr ev)
    with st consider d where "ev = Event (h11_Data d)" "their_state (h11_state c1) = SEND_BODY"
      | "ev = Event h11_EndOfMessage"
      by auto
    then show ?thesis
    proof cases
      case 1
      with re Inr "1.prems" have "body_iter timeout (acc @ [d]) c1 = (Inl e, c')"
        by (simp add: body_iter.simps [of timeout acc c])
      from "1.IH" [OF re [symmetric] _ _ _ 1(2) this] Inr 1 show ?thesis by simp
    next
      case 2
      with re Inr "1.prems" show ?thesis by (simp add: body_iter.simps [of timeout acc c])
    qed
  qed
qed

text \<open>
  \<open>response_closed\<close> never raises. A response \<open>send\<close> has just built is unread and
  open, so the buffered path is: iterate the body, then \<open>response_closed\<close>, once.
\<close>

lemma response_closed_eq:
  "response_closed c =
     (Inr (),
      (if our_state (h11_state c) = DONE \<and> their_state (h11_state c) = DONE
       then c\<lparr>h11_state := (h11_state c)\<lparr>our_state := IDLE, their_state := IDLE\<rparr>,
              log := log c @ release_actions c\<rparr>
       else (snd (close c))\<lparr>log := log c @ [WriterClosed] @ release_actions c\<rparr>))"
  by (simp add: response_closed_def h11_start_next_cycle_def close_eq call_on_release_eq
        release_actions_def split: option.splits)

lemma start_response_frame:
  assumes "start_response t c = (r, c')"
  shows "(\<exists>n. log c' = log c @ replicate n ReadCall)
     \<and> writer c' = writer c \<and> on_release c' = on_release c
     \<and> (\<forall>resp. r = Inr resp \<longrightarrow>
           content resp = None \<and> \<not> is_stream_consumed resp \<and> \<not> response_is_closed resp
           \<and> protocol resp = ''HTTP/1.1'' \<and> their_state (h11_state c') = SEND_BODY)"
proof -
  obtain r1 c1 where p1: "receive_event t c = (r1, c1)" by (cases "receive_event t c")
  from receive_event_frame [OF p1]
  obtain n where n: "log c1 = log c @ replicate n ReadCall"
    and fr1: "writer c1 = writer c" "on_release c1 = on_release c"
    by auto
  show ?thesis
  proof (cases r1)
    case (Inl e)
    with p1 assms have "c' = c1" "r = Inl e" by (simp_all add: start_response_def)
    with n fr1 show ?thesis by auto
  next
    case (Inr event)
    obtain r2 c2 where p2:
      "(if is_InformationalResponse event then receive_event t c1 else (Inr event, c1)) = (r2, c2)"
      by (cases "if is_InformationalResponse event then receive_event t c1 else (Inr event, c1)")
    have l2: "\<exists>m. log c2 = log c @ replicate m ReadCall"
      and fr2: "writer c2 = writer c" "on_release c2 = on_release c"
    proof -
      show "\<exists>m. log c2 = log c @ replicate m ReadCall"
      proof (cases "is_InformationalResponse event")
        case True
        with p2 have "receive_event t c1 = (r2, c2)" by simp
        from receive_event_frame [OF this]
        obtain m where "log c2 = log c1 @ replicate m ReadCall" by auto
        with n have "log c2 = log c @ replicate (n + m) ReadCall"
          by (simp add: replicate_add)
        then show ?thesis ..
      next
        case False
        with p2 n show ?thesis by auto
      qed
      show "writer c2 = writer c" "on_release c2 = on_release c"
        using p2 fr1 receive_event_frame [of t c1 r2 c2]
        by (auto split: if_splits)
    qed
    have st: "their_state (h11_state c2) = SEND_BODY"
      if "r2 = Inr (Event (h11_Response s rs hs))" for s rs hs
      using that p1 p2 Inr
      by (auto split: if_splits dest: receive_event_Response_state)
    from p1 p2 Inr assms
    have out: "(r, c') =
      (case r2 of
         Inl e \<Rightarrow> (Inl e, c2)
       | Inr (Event (h11_Response status rsn hs)) \<Rightarrow>
           (Inr \<lparr>status_code = status, reason = rsn, protocol = ''HTTP/1.1'',
                 headers = hs, content = None, is_stream_consumed = False,
                 response_is_closed = False\<rparr>, c2)
       | Inr other \<Rightarrow> (Inl AssertionError, c2))"
      by (simp add: start_response_def)
    then have "c' = c2"
      by (auto split: sum.splits h11_next.splits h11_event.splits)
    moreover from out st have "\<forall>resp. r = Inr resp \<longrightarrow>
           content resp = None \<and> \<not> is_stream_consumed resp \<and> \<not> response_is_closed resp
           \<and> protocol resp = ''HTTP/1.1'' \<and> their_state (h11_state c2) = SEND_BODY"
      by (auto split: sum.splits h11_next.splits h11_event.splits)
    ultimately show ?thesis using l2 fr2 by blast
  qed
qed

lemma finish_response_buffered:
  assumes "content resp = None" "\<not> is_stream_consumed resp" "\<not> response_is_closed resp"
  shows "finish_response False t resp c =
     (case body_iter t [] c of
        (Inl e, c1) \<Rightarrow> (Inl e, snd (response_closed c1))
      | (Inr parts, c1) \<Rightarrow>
          (Inr (resp\<lparr>is_stream_consumed := True, response_is_closed := True,
                     content := Some (concat parts)\<rparr>),
           snd (response_closed c1)))"
  using assms
  by (auto simp: finish_response_def Response_read_def Response_close_def response_closed_eq
           split: prod.splits sum.splits)

text \<open>
  An idle driver whose writer does not time out accepts a whole request.
\<close>

lemma fire_our_SEND_BODY:
  "our_state h = SEND_BODY \<Longrightarrow> our_state (fire_state_triggered_transitions h) = SEND_BODY"
  by (simp add: fire_state_triggered_transitions_def Let_def)

lemma process_keep_alive_our_SEND_BODY:
  "our_state h = SEND_BODY \<Longrightarrow> our_state (process_keep_alive ev h) = SEND_BODY"
  by (simp add: process_keep_alive_def fire_our_SEND_BODY)

lemma send_event_accepted:
  assumes "writes_before_timeout (writer c) = None"
    and "(\<exists>m tg hs. ev = h11_Request m tg hs) \<and> our_state (h11_state c) = IDLE
           \<and> their_state (h11_state c) = IDLE
         \<or> (\<exists>d. ev = h11_Data d) \<and> our_state (h11_state c) = SEND_BODY"
  shows "\<exists>c'. send_event ev t c = (Inr (), c') \<and> writes_before_timeout (writer c') = None
            \<and> our_state (h11_state c') = SEND_BODY"
  using assms
  by (auto simp: send_event_def h11_send_def process_client_event_def Let_def
        process_keep_alive_our_SEND_BODY fire_our_SEND_BODY)

lemma send_event_EndOfMessage_accepted:
  assumes "writes_before_timeout (writer c) = None" "our_state (h11_state c) = SEND_BODY"
  shows "fst (send_event h11_EndOfMessage t c) = Inr ()"
  using assms
  by (auto simp: send_event_def h11_send_def process_client_event_def Let_def)

lemma send_body_accepted:
  "writes_before_timeout (writer c) = None \<Longrightarrow> our_state (h11_state c) = SEND_BODY \<Longrightarrow>
   \<exists>c'. send_body ds t c = (Inr (), c') \<and> writes_before_timeout (writer c') = None
        \<and> our_state (h11_state c') = SEND_BODY"
proof (induction ds arbitrary: c)
  case Nil
  then show ?case by simp
next
  case (Cons d ds)
  from send_event_accepted [of c "h11_Data d" t] Cons.prems
  obtain c1 where c1: "send_event (h11_Data d) t c = (Inr (), c1)"
    "writes_before_timeout (writer c1) = None" "our_state (h11_state c1) = SEND_BODY"
    by auto
  from Cons.IH [OF c1(2,3)] c1(1) show ?case by simp
qed

lemma send_request_accepted:
  assumes "our_state (h11_state c) = IDLE" "their_state (h11_state c) = IDLE"
    "writes_before_timeout (writer c) = None"
  shows "fst (send_request request t c) = Inr ()"
proof -
  let ?rq = "h11_Request (req_method request) (req_full_path request) (req_headers request)"
  from send_event_accepted [of c ?rq t] assms
  obtain c1 where c1: "send_event ?rq t c = (Inr (), c1)"
    "writes_before_timeout (writer c1) = None" "our_state (h11_state c1) = SEND_BODY"
    by auto
  from send_body_accepted [OF c1(2,3), of "req_stream request" t]
  obtain c2 where c2: "send_body (req_stream request) t c1 = (Inr (), c2)"
    "writes_before_timeout (writer c2) = None" "our_state (h11_state c2) = SEND_BODY"
    by auto
  from send_event_EndOfMessage_accepted [OF c2(2,3), of t] c1(1) c2(1)
  show ?thesis by (simp add: send_request_def)
qed

text \<open>Receiving and closing leave no action of the request side in the log.\<close>

lemma response_closed_log:
  "log (snd (response_closed c)) =
     log c @ (if our_state (h11_state c) = DONE \<and> their_state (h11_state c) = DONE
              then [] else [WriterClosed]) @ release_actions c"
  by (simp add: response_closed_eq)

lemma filter_wire_release_actions [simp]: "filter is_wire_action (release_actions c) = []"
  by (simp add: release_actions_def split: option.splits)

lemma filter_Released_release_actions [simp]:
  "filter is_Released (release_actions c) = release_actions c"
  by (simp add: release_actions_def split: option.splits)

lemma finish_response_wire_log:
  assumes "content resp = None" "\<not> is_stream_consumed resp" "\<not> response_is_closed resp"
    "finish_response stream t resp c = (r, c')"
  shows "filter is_wire_action (log c') = filter is_wire_action (log c)"
proof (cases stream)
  case True
  with assms show ?thesis by (simp add: finish_response_def)
next
  case False
  obtain r2 c2 where bi: "body_iter t [] c = (r2, c2)" by (cases "body_iter t [] c")
  from body_iter_frame [OF bi] obtain n where "log c2 = log c @ replicate n ReadCall"
    by auto
  moreover from False assms bi have "c' = snd (response_closed c2)"
    by (auto simp: finish_response_buffered split: sum.splits)
  ultimately show ?thesis by (simp add: response_closed_log)
qed

lemma send_wire_log:
  assumes "send request t stream c = (r, c')" "send_request request t c = (r0, c0)"
  shows "filter is_wire_action (log c') = filter is_wire_action (log c0)
     \<and> (\<forall>resp. r = Inr resp \<longrightarrow> r0 = Inr ())"
proof (cases r0)
  case (Inl e)
  with assms show ?thesis by (auto simp: send_def)
next
  case (Inr u)
  obtain r1 c1 where sr: "start_response t c0 = (r1, c1)" by (cases "start_response t c0")
  from start_response_frame [OF sr]
  have l1: "\<exists>n. log c1 = log c0 @ replicate n ReadCall"
    and fresh: "\<forall>resp. r1 = Inr resp \<longrightarrow>
           content resp = None \<and> \<not> is_stream_consumed resp \<and> \<not> response_is_closed resp"
    by blast+
  from l1 have w1: "filter is_wire_action (log c1) = filter is_wire_action (log c0)" by auto
  show ?thesis
  proof (cases r1)
    case (Inl e)
    with assms Inr sr w1 show ?thesis by (auto simp: send_def)
  next
    case (Inr resp)
    with assms \<open>r0 = Inr u\<close> sr have "finish_response stream t resp c1 = (r, c')"
      by (simp add: send_def)
    with fresh Inr have "filter is_wire_action (log c') = filter is_wire_action (log c1)"
      by (auto intro: finish_response_wire_log)
    with w1 \<open>r0 = Inr u\<close> show ?thesis by simp
  qed
qed

text \<open>
  C7. Of the log of a \<open>send\<close>, the actions on the request side of the wire are an
  initial part of: the request-start event emitted, then written; for each body chunk
  in order, its data event emitted, then written; the end-of-message event emitted,
  then written. It is the whole of it when \<open>send\<close> returns a response, and when the
  driver was idle and no write times out.
\<close>

theorem send_emits_request_in_order:
  "(\<exists>n. filter is_wire_action (log (snd (send request t stream c))) =
          filter is_wire_action (log c) @ take n (wire_actions (request_events request)))
   \<and> (fst (send request t stream c) = Inr resp \<longrightarrow>
        filter is_wire_action (log (snd (send request t stream c))) =
          filter is_wire_action (log c) @ wire_actions (request_events request))
   \<and> (our_state (h11_state c) = IDLE \<and> their_state (h11_state c) = IDLE
        \<and> writes_before_timeout (writer c) = None \<longrightarrow>
        filter is_wire_action (log (snd (send request t stream c))) =
          filter is_wire_action (log c) @ wire_actions (request_events request))"
proof -
  obtain r c' where s: "send request t stream c = (r, c')"
    by (cases "send request t stream c")
  obtain r0 c0 where s0: "send_request request t c = (r0, c0)"
    by (cases "send_request request t c")
  from send_wire_log [OF s s0]
  have same: "filter is_wire_action (log c') = filter is_wire_action (log c0)"
    and ok: "\<forall>resp. r = Inr resp \<longrightarrow> r0 = Inr ()"
    by blast+
  from send_request_log [OF s0]
  have ex: "\<exists>n. log c0 = log c @ take n (wire_actions (request_events request))"
    and full: "r0 = Inr () \<longrightarrow> log c0 = log c @ wire_actions (request_events request)"
    by blast+
  from ex obtain n where "log c0 = log c @ take n (wire_actions (request_events request))" ..
  with same have "filter is_wire_action (log c') =
      filter is_wire_action (log c) @ take n (wire_actions (request_events request))"
    by (simp add: filter_take_wire_actions)
  then have A: "\<exists>n. filter is_wire_action (log c') =
      filter is_wire_action (log c) @ take n (wire_actions (request_events request))" ..
  from full same
  have F: "r0 = Inr () \<longrightarrow> filter is_wire_action (log c') =
      filter is_wire_action (log c) @ wire_actions (request_events request)"
    using filter_take_wire_actions(1) [of "length (wire_actions (request_events request))"
        "request_events request"]
    by simp
  from F ok have B: "r = Inr resp \<longrightarrow> filter is_wire_action (log c') =
      filter is_wire_action (log c) @ wire_actions (request_events request)"
    by blast
  from F s0 send_request_accepted [of c request t]
  have C: "our_state (h11_state c) = IDLE \<and> their_state (h11_state c) = IDLE
        \<and> writes_before_timeout (writer c) = None \<longrightarrow>
        filter is_wire_action (log c') =
          filter is_wire_action (log c) @ wire_actions (request_events request)"
    by auto
  from A B C s show ?thesis by simp
qed

text \<open>An instance: a request with the two body chunks \<open>ab\<close> and \<open>cd\<close>.\<close>

theorem send_emits_request_in_order_witness:
  "filter is_wire_action (log (snd (send
       \<lparr>req_method = ''POST'', req_full_path = ''/upload'', req_headers = [],
                req_stream = [''ab'', ''cd'']\<rparr> None False
       (HTTP11Connection_init [Chunk [h11_Response 200 ''OK'' [], h11_EndOfMessage]]
                \<lparr>writes_before_timeout = None, writer_closed = False\<rparr> None))))
   = [Emitted (h11_Request ''POST'' ''/upload'' []), Wrote [h11_Request ''POST'' ''/upload'' []],
      Emitted (h11_Data ''ab''), Wrote [h11_Data ''ab''],
      Emitted (h11_Data ''cd''), Wrote [h11_Data ''cd''],
      Emitted h11_EndOfMessage, Wrote [h11_EndOfMessage]]"
  using send_emits_request_in_order [of
       "\<lparr>req_method = ''POST'', req_full_path = ''/upload'', req_headers = [],
                req_stream = [''ab'', ''cd'']\<rparr>" None False
       "(HTTP11Connection_init [Chunk [h11_Response 200 ''OK'' [], h11_EndOfMessage]]
                \<lparr>writes_before_timeout = None, writer_closed = False\<rparr> None)"]
  by (simp add: HTTP11Connection_init_def h11_new_def request_events_def)

section \<open>Buffered and streamed responses\<close>

lemma close_is_closed: "HTTP11Connection_is_closed (snd (close c))"
  by (cases "our_state (h11_state c)")
     (simp_all add: close_eq HTTP11Connection_is_closed_def h11_send_def process_client_event_def
        process_keep_alive_def fire_state_triggered_transitions_def Let_def)

lemma send_buffered_tail:
  assumes "send request t True c = (Inr resp, c1)" and "body_iter t [] c1 = (Inl e, c2)"
  shows "send request t False c = (Inl e, snd (response_closed c2))"
proof -
  obtain r0 c0 where s0: "send_request request t c = (r0, c0)"
    by (cases "send_request request t c")
  with assms(1) have r0: "r0 = Inr ()" by (cases r0) (simp_all add: send_def)
  obtain r1 c' where sr: "start_response t c0 = (r1, c')" by (cases "start_response t c0")
  with assms(1) s0 r0 have r1: "r1 = Inr resp" "c' = c1"
    by (cases r1; simp add: send_def finish_response_def)+
  from start_response_frame [OF sr] r1
  have fresh: "content resp = None" "\<not> is_stream_consumed resp" "\<not> response_is_closed resp"
    by simp_all
  from s0 r0 sr r1 fresh assms(2) show ?thesis
    by (simp add: send_def finish_response_buffered)
qed

text \<open>
  C5. Where the streamed \<open>send\<close> fails, the buffered one fails alike. Where the
  streamed \<open>send\<close> returns a response, that response is unread and open and the body is
  still to be iterated on the driver as returned. The buffered \<open>send\<close> is then that
  iteration followed by \<open>response_closed\<close>: if the iteration fails, its error is the
  outcome of \<open>send\<close>; if it ends, the response is returned read, closed, and holding
  the bytes of the body.
\<close>

theorem send_buffered_drains_and_closes:
  "(send request t True c = (Inl e, c1) \<longrightarrow> send request t False c = (Inl e, c1))
   \<and> (send request t True c = (Inr resp, c1) \<longrightarrow>
        content resp = None \<and> \<not> is_stream_consumed resp \<and> \<not> response_is_closed resp
        \<and> (body_iter t [] c1 = (Inl e, c2) \<longrightarrow>
             send request t False c = (Inl e, snd (response_closed c2)))
        \<and> (body_iter t [] c1 = (Inr parts, c2) \<longrightarrow>
             send request t False c =
               (Inr (resp\<lparr>is_stream_consumed := True, response_is_closed := True,
                          content := Some (concat parts)\<rparr>),
                snd (response_closed c2))))"
proof -
  obtain r0 c0 where s0: "send_request request t c = (r0, c0)"
    by (cases "send_request request t c")
  show ?thesis
  proof (cases r0)
    case (Inl e0)
    with s0 show ?thesis by (simp add: send_def)
  next
    case (Inr u)
    obtain r1 c' where sr: "start_response t c0 = (r1, c')" by (cases "start_response t c0")
    show ?thesis
    proof (cases r1)
      case (Inl e1)
      with s0 \<open>r0 = Inr u\<close> sr show ?thesis by (simp add: send_def)
    next
      case (Inr rsp)
      from start_response_frame [OF sr] Inr
      have fresh: "content rsp = None" "\<not> is_stream_consumed rsp" "\<not> response_is_closed rsp"
        by simp_all
      have streamed: "send request t True c = (Inr rsp, c')"
        using s0 \<open>r0 = Inr u\<close> sr Inr by (simp add: send_def finish_response_def)
      have buffered: "send request t False c =
         (case body_iter t [] c' of
            (Inl e, c1) \<Rightarrow> (Inl e, snd (response_closed c1))
          | (Inr parts, c1) \<Rightarrow>
              (Inr (rsp\<lparr>is_stream_consumed := True, response_is_closed := True,
                         content := Some (concat parts)\<rparr>),
               snd (response_closed c1)))"
        using s0 \<open>r0 = Inr u\<close> sr Inr fresh by (simp add: send_def finish_response_buffered)
      from streamed buffered fresh show ?thesis by auto
    qed
  qed
qed

text \<open>
  An instance: a body arriving in two reads is returned whole by the buffered \<open>send\<close>;
  when the second read times out, the buffered \<open>send\<close> raises the timeout.
\<close>

theorem send_buffered_drains_and_closes_witness:
  "fst (send \<lparr>req_method = ''GET'', req_full_path = ''/'', req_headers = [], req_stream = []\<rparr> None True
       (HTTP11Connection_init
          [Chunk [h11_Response 200 ''OK'' [], h11_Data ''hel''], Chunk [h11_Data ''lo'', h11_EndOfMessage]]
          \<lparr>writes_before_timeout = None, writer_closed = False\<rparr> (Some ''release'')))
     = Inr \<lparr>status_code = 200, reason = ''OK'', protocol = ''HTTP/1.1'', headers = [],
         content = None, is_stream_consumed = False, response_is_closed = False\<rparr>
   \<and> fst (send \<lparr>req_method = ''GET'', req_full_path = ''/'', req_headers = [], req_stream = []\<rparr> None False
       (HTTP11Connection_init
          [Chunk [h11_Response 200 ''OK'' [], h11_Data ''hel''], Chunk [h11_Data ''lo'', h11_EndOfMessage]]
          \<lparr>writes_before_timeout = None, writer_closed = False\<rparr> (Some ''release'')))
     = Inr \<lparr>status_code = 200, reason = ''OK'', protocol = ''HTTP/1.1'', headers = [],
         content = Some ''hello'', is_stream_consumed = True, response_is_closed = True\<rparr>
   \<and> fst (send \<lparr>req_method = ''GET'', req_full_path = ''/'', req_headers = [], req_stream = []\<rparr> None True
       (HTTP11Connection_init
          [Chunk [h11_Response 200 ''OK'' [], h11_Data ''hel''], TimesOut]
          \<lparr>writes_before_timeout = None, writer_closed = False\<rparr> (Some ''release'')))
     = Inr \<lparr>status_code = 200, reason = ''OK'', protocol = ''HTTP/1.1'', headers = [],
         content = None, is_stream_consumed = False, response_is_closed = False\<rparr>
   \<and> fst (send \<lparr>req_method = ''GET'', req_full_path = ''/'', req_headers = [], req_stream = []\<rparr> None False
       (HTTP11Connection_init
          [Chunk [h11_Response 200 ''OK'' [], h11_Data ''hel''], TimesOut]
          \<lparr>writes_before_timeout = None, writer_closed = False\<rparr> (Some ''release'')))
     = Inl ReadTimeout"
proof -
  let ?req = "\<lparr>req_method = ''GET'', req_full_path = ''/'', req_headers = [], req_stream = []\<rparr>"
  let ?cA = "(HTTP11Connection_init
          [Chunk [h11_Response 200 ''OK'' [], h11_Data ''hel''], Chunk [h11_Data ''lo'', h11_EndOfMessage]]
          \<lparr>writes_before_timeout = None, writer_closed = False\<rparr> (Some ''release''))"
  let ?cB = "(HTTP11Connection_init
          [Chunk [h11_Response 200 ''OK'' [], h11_Data ''hel''], TimesOut]
          \<lparr>writes_before_timeout = None, writer_closed = False\<rparr> (Some ''release''))"
  let ?resp = "\<lparr>status_code = 200, reason = ''OK'', protocol = ''HTTP/1.1'', headers = [],
         content = None, is_stream_consumed = False, response_is_closed = False\<rparr>"
  have fA: "fst (send ?req None True ?cA) = Inr ?resp" by code_simp
  then have hA: "send ?req None True ?cA = (Inr ?resp, snd (send ?req None True ?cA))"
    by (simp add: prod_eq_iff)
  have "fst (body_iter None [] (snd (send ?req None True ?cA))) = Inr [''hel'', ''lo'']"
    by code_simp
  then have bA: "body_iter None [] (snd (send ?req None True ?cA)) =
      (Inr [''hel'', ''lo''], snd (body_iter None [] (snd (send ?req None True ?cA))))"
    by (simp add: prod_eq_iff)
  from send_buffered_drains_and_closes [of ?req None ?cA _ "snd (send ?req None True ?cA)"
      ?resp "snd (body_iter None [] (snd (send ?req None True ?cA)))" "[''hel'', ''lo'']"] hA bA
  have A: "fst (send ?req None False ?cA) = Inr \<lparr>status_code = 200, reason = ''OK'', protocol = ''HTTP/1.1'', headers = [],
         content = Some ''hello'', is_stream_consumed = True, response_is_closed = True\<rparr>"
    by simp
  have fB: "fst (send ?req None True ?cB) = Inr ?resp" by code_simp
  then have hB: "send ?req None True ?cB = (Inr ?resp, snd (send ?req None True ?cB))"
    by (simp add: prod_eq_iff)
  have "fst (body_iter None [] (snd (send ?req None True ?cB))) = Inl ReadTimeout"
    by code_simp
  then have bB: "body_iter None [] (snd (send ?req None True ?cB)) =
      (Inl ReadTimeout, snd (body_iter None [] (snd (send ?req None True ?cB))))"
    by (simp add: prod_eq_iff)
  from send_buffered_drains_and_closes [of ?req None ?cB ReadTimeout
      "snd (send ?req None True ?cB)" ?resp
      "snd (body_iter None [] (snd (send ?req None True ?cB)))"] hB bB
  have B: "fst (send ?req None False ?cB) = Inl ReadTimeout"
    by simp
  from fA A fB B show ?thesis by simp
qed

text \<open>
  C10. When the iteration of the body fails in a buffered \<open>send\<close>, the driver the
  caller is left with is the one \<open>response_closed\<close> returns: the peer machine is not
  done, so \<open>close\<close> ran, the writer is closed and the driver reports closed; and over
  the whole \<open>send\<close> the hook, if there is one, was called once, as the last action.
\<close>

theorem send_buffered_failure_runs_response_closed:
  assumes "send request t True c = (Inr resp, c1)" and "body_iter t [] c1 = (Inl e, c2)"
  shows "send request t False c = (Inl e, snd (response_closed c2))
     \<and> response_closed c2 =
         (Inr (), (snd (close c2))\<lparr>log := log c2 @ [WriterClosed] @ release_actions c\<rparr>)
     \<and> writer_closed (writer (snd (response_closed c2)))
     \<and> HTTP11Connection_is_closed (snd (response_closed c2))
     \<and> filter is_Released (log (snd (response_closed c2))) =
         filter is_Released (log c) @ release_actions c"
proof -
  obtain r0 c0 where s0: "send_request request t c = (r0, c0)"
    by (cases "send_request request t c")
  with assms(1) have r0: "r0 = Inr ()" by (cases r0) (simp_all add: send_def)
  obtain r1 c' where sr: "start_response t c0 = (r1, c')" by (cases "start_response t c0")
  with assms(1) s0 r0 have r1: "r1 = Inr resp" "c' = c1"
    by (cases r1; simp add: send_def finish_response_def)+
  from send_request_log [OF s0]
  obtain k where l0: "log c0 = log c @ take k (wire_actions (request_events request))"
    and rel0: "on_release c0 = on_release c"
    by blast
  from start_response_frame [OF sr] r1
  obtain n where l1: "log c1 = log c0 @ replicate n ReadCall"
    and rel1: "on_release c1 = on_release c0"
    and body: "their_state (h11_state c1) = SEND_BODY"
    by auto
  from body_iter_frame [OF assms(2)]
  obtain m where l2: "log c2 = log c1 @ replicate m ReadCall"
    and rel2: "on_release c2 = on_release c1"
    by auto
  from body_iter_failure_state [OF body assms(2)]
  have notdone: "their_state (h11_state c2) \<noteq> DONE" .
  from rel0 rel1 rel2 have rel: "release_actions c2 = release_actions c"
    by (simp add: release_actions_def)
  from l0 l1 l2 have quiet: "filter is_Released (log c2) = filter is_Released (log c)"
    by (simp add: filter_take_wire_actions)
  from notdone rel have rc: "response_closed c2 =
      (Inr (), (snd (close c2))\<lparr>log := log c2 @ [WriterClosed] @ release_actions c\<rparr>)"
    by (simp add: response_closed_eq)
  have first: "send request t False c = (Inl e, snd (response_closed c2))"
    using send_buffered_tail [OF assms] .
  from rc have "writer_closed (writer (snd (response_closed c2)))"
    by (simp add: close_eq writer_close_def)
  moreover from rc close_is_closed [of c2]
  have "HTTP11Connection_is_closed (snd (response_closed c2))"
    by (simp add: HTTP11Connection_is_closed_def)
  moreover from rc quiet
  have "filter is_Released (log (snd (response_closed c2))) =
         filter is_Released (log c) @ release_actions c"
    by simp
  ultimately show ?thesis using first rc by simp
qed

text \<open>An instance: the read timeout in the middle of the body, with a hook supplied.\<close>

theorem send_buffered_failure_runs_response_closed_witness:
  "fst (send \<lparr>req_method = ''GET'', req_full_path = ''/'', req_headers = [], req_stream = []\<rparr> None False
       (HTTP11Connection_init
          [Chunk [h11_Response 200 ''OK'' [], h11_Data ''hel''], TimesOut]
          \<lparr>writes_before_timeout = None, writer_closed = False\<rparr> (Some ''release'')))
     = Inl ReadTimeout
   \<and> filter is_Released (log (snd (send \<lparr>req_method = ''GET'', req_full_path = ''/'', req_headers = [], req_stream = []\<rparr> None False
       (HTTP11Connection_init
          [Chunk [h11_Response 200 ''OK'' [], h11_Data ''hel''], TimesOut]
          \<lparr>writes_before_timeout = None, writer_closed = False\<rparr> (Some ''release'')))))
     = [Released ''release'']
   \<and> writer_closed (writer (snd (send \<lparr>req_method = ''GET'', req_full_path = ''/'', req_headers = [], req_stream = []\<rparr> None False
       (HTTP11Connection_init
          [Chunk [h11_Response 200 ''OK'' [], h11_Data ''hel''], TimesOut]
          \<lparr>writes_before_timeout = None, writer_closed = False\<rparr> (Some ''release'')))))
   \<and> HTTP11Connection_is_closed (snd (send \<lparr>req_method = ''GET'', req_full_path = ''/'', req_headers = [], req_stream = []\<rparr> None False
       (HTTP11Connection_init
          [Chunk [h11_Response 200 ''OK'' [], h11_Data ''hel''], TimesOut]
          \<lparr>writes_before_timeout = None, writer_closed = False\<rparr> (Some ''release''))))"
proof -
  let ?req = "\<lparr>req_method = ''GET'', req_full_path = ''/'', req_headers = [], req_stream = []\<rparr>"
  let ?cB = "(HTTP11Connection_init
          [Chunk [h11_Response 200 ''OK'' [], h11_Data ''hel''], TimesOut]
          \<lparr>writes_before_timeout = None, writer_closed = False\<rparr> (Some ''release''))"
  let ?resp = "\<lparr>status_code = 200, reason = ''OK'', protocol = ''HTTP/1.1'', headers = [],
         content = None, is_stream_consumed = False, response_is_closed = False\<rparr>"
  have "fst (send ?req None True ?cB) = Inr ?resp" by code_simp
  then have hB: "send ?req None True ?cB = (Inr ?resp, snd (send ?req None True ?cB))"
    by (simp add: prod_eq_iff)
  have "fst (body_iter None [] (snd (send ?req None True ?cB))) = Inl ReadTimeout"
    by code_simp
  then have bB: "body_iter None [] (snd (send ?req None True ?cB)) =
      (Inl ReadTimeout, snd (body_iter None [] (snd (send ?req None True ?cB))))"
    by (simp add: prod_eq_iff)
  let ?c2 = "snd (body_iter None [] (snd (send ?req None True ?cB)))"
  from send_buffered_failure_runs_response_closed [OF hB bB]
  have s: "send ?req None False ?cB = (Inl ReadTimeout, snd (response_closed ?c2))"
    and w: "writer_closed (writer (snd (response_closed ?c2)))"
    and cl: "HTTP11Connection_is_closed (snd (response_closed ?c2))"
    and rel: "filter is_Released (log (snd (response_closed ?c2))) =
         filter is_Released (log ?cB) @ release_actions ?cB"
    by blast+
  have "filter is_Released (log ?cB) @ release_actions ?cB = [Released ''release'']"
    by (simp add: HTTP11Connection_init_def release_actions_def)
  with s w cl rel show ?thesis by simp
qed

section \<open>No reuse after must-close\<close>

text \<open>
  No event leaves the local machine idle: an accepted event of ours moves it on, a
  rejected one puts it in \<open>ERROR\<close>, and the events of the peer and the transitions
  that states trigger never lead back to idle. Only \<open>response_closed\<close> does, with
  both machines done.
\<close>

lemma fire_our_not_IDLE:
  "our_state h \<noteq> IDLE \<Longrightarrow> our_state (fire_state_triggered_transitions h) \<noteq> IDLE"
  by (simp add: fire_state_triggered_transitions_def Let_def)

lemma process_keep_alive_our_not_IDLE:
  "our_state h \<noteq> IDLE \<Longrightarrow> our_state (process_keep_alive ev h) \<noteq> IDLE"
  by (simp add: process_keep_alive_def fire_our_not_IDLE)

lemma process_client_event_not_IDLE:
  "process_client_event ev h = Some h' \<Longrightarrow> our_state h' \<noteq> IDLE"
  by (cases "our_state h"; cases ev)
     (auto simp: process_client_event_def split: if_splits
           intro!: process_keep_alive_our_not_IDLE fire_our_not_IDLE)

lemma h11_send_not_IDLE: "h11_send ev h = (r, h') \<Longrightarrow> our_state h' \<noteq> IDLE"
  by (auto simp: h11_send_def split: if_splits option.splits
           dest: process_client_event_not_IDLE intro!: fire_our_not_IDLE)

lemma send_event_not_IDLE:
  "send_event ev t c = (r, c') \<Longrightarrow> our_state (h11_state c') \<noteq> IDLE"
  by (auto simp: send_event_def Let_def split: prod.splits sum.splits dest: h11_send_not_IDLE)

lemma send_body_not_IDLE:
  "our_state (h11_state c) \<noteq> IDLE \<Longrightarrow> send_body ds t c = (r, c') \<Longrightarrow>
   our_state (h11_state c') \<noteq> IDLE"
proof (induction ds arbitrary: c)
  case Nil
  then show ?case by simp
next
  case (Cons d ds)
  obtain r1 c1 where se: "send_event (h11_Data d) t c = (r1, c1)"
    by (cases "send_event (h11_Data d) t c")
  note ni = send_event_not_IDLE [OF se]
  show ?case
  proof (cases r1)
    case (Inl e)
    with se Cons.prems ni show ?thesis by simp
  next
    case (Inr u)
    with se Cons.prems have "send_body ds t c1 = (r, c')" by simp
    from Cons.IH [OF ni this] show ?thesis .
  qed
qed

lemma send_request_not_IDLE:
  "send_request request t c = (r, c') \<Longrightarrow> our_state (h11_state c') \<noteq> IDLE"
  by (auto simp: send_request_def split: prod.splits sum.splits
           dest: send_event_not_IDLE send_body_not_IDLE)

lemma next_event_our_not_IDLE:
  "our_state h \<noteq> IDLE \<Longrightarrow> h11_next_event h = (r, h') \<Longrightarrow> our_state h' \<noteq> IDLE"
  by (auto simp: h11_next_event_def process_server_event_def
           split: if_splits list.splits option.splits
           intro!: process_keep_alive_our_not_IDLE fire_our_not_IDLE)

lemma receive_data_our_state [simp]:
  "our_state (h11_receive_data data h) = our_state h"
  by (simp add: h11_receive_data_def)

lemma receive_event_our_not_IDLE:
  "our_state (h11_state c) \<noteq> IDLE \<Longrightarrow> receive_event t c = (r, c') \<Longrightarrow>
   our_state (h11_state c') \<noteq> IDLE"
proof (induction t c rule: receive_event.induct)
  case (1 timeout c)
  obtain r0 h where nx: "h11_next_event (h11_state c) = (r0, h)"
    by (cases "h11_next_event (h11_state c)")
  note ni = next_event_our_not_IDLE [OF "1.prems"(1) nx]
  show ?case
  proof (cases r0)
    case (Inl e)
    with nx "1.prems" ni show ?thesis by (auto simp: receive_event_raise)
  next
    case (Inr ev)
    show ?thesis
    proof (cases "ev = NEED_DATA")
      case False
      with nx Inr "1.prems" ni show ?thesis by (auto simp: receive_event_no_read)
    next
      case True
      obtain r2 rd where rr: "reader_read (reader c) timeout = (r2, rd)"
        by (cases "reader_read (reader c) timeout")
      show ?thesis
      proof (cases r2)
        case (Inl e)
        with nx Inr True rr "1.prems" ni show ?thesis by (auto simp: receive_event_step)
      next
        case (Inr data)
        let ?c1 = "c\<lparr>h11_state := h11_receive_data data h, reader := rd,
                      log := log c @ [ReadCall]\<rparr>"
        from nx \<open>r0 = Inr ev\<close> True rr Inr "1.prems"
        have run: "receive_event timeout ?c1 = (r, c')"
          by (simp add: receive_event_step)
        from ni have "our_state (h11_state ?c1) \<noteq> IDLE" by simp
        from "1.IH" [OF nx [symmetric] \<open>r0 = Inr ev\<close> True rr [symmetric] Inr this run]
        show ?thesis .
      qed
    qed
  qed
qed

lemma start_response_our_not_IDLE:
  assumes "our_state (h11_state c) \<noteq> IDLE" "start_response t c = (r, c')"
  shows "our_state (h11_state c') \<noteq> IDLE"
proof -
  obtain r1 c1 where p1: "receive_event t c = (r1, c1)" by (cases "receive_event t c")
  note n1 = receive_event_our_not_IDLE [OF assms(1) p1]
  show ?thesis
  proof (cases r1)
    case (Inl e)
    with p1 assms(2) n1 show ?thesis by (simp add: start_response_def)
  next
    case (Inr event)
    obtain r2 c2 where p2:
      "(if is_InformationalResponse event then receive_event t c1 else (Inr event, c1)) = (r2, c2)"
      by (cases "if is_InformationalResponse event then receive_event t c1 else (Inr event, c1)")
    from p2 n1 have n2: "our_state (h11_state c2) \<noteq> IDLE"
      by (auto split: if_splits dest: receive_event_our_not_IDLE)
    from p1 p2 Inr assms(2) have "c' = c2"
      by (auto simp: start_response_def split: sum.splits h11_next.splits h11_event.splits)
    with n2 show ?thesis by simp
  qed
qed

lemma send_failed_not_IDLE:
  assumes "send request t stream c = (Inl e, c')"
  shows "our_state (h11_state c') \<noteq> IDLE"
proof -
  obtain r0 c0 where s0: "send_request request t c = (r0, c0)"
    by (cases "send_request request t c")
  note n0 = send_request_not_IDLE [OF s0]
  show ?thesis
  proof (cases r0)
    case (Inl e0)
    with s0 assms n0 show ?thesis by (simp add: send_def)
  next
    case (Inr u)
    obtain r1 c1 where sr: "start_response t c0 = (r1, c1)" by (cases "start_response t c0")
    note n1 = start_response_our_not_IDLE [OF n0 sr]
    show ?thesis
    proof (cases r1)
      case (Inl e1)
      with s0 \<open>r0 = Inr u\<close> sr assms n1 show ?thesis by (simp add: send_def)
    next
      case (Inr resp)
      from start_response_frame [OF sr] Inr
      have fresh: "content resp = None" "\<not> is_stream_consumed resp" "\<not> response_is_closed resp"
        and body: "their_state (h11_state c1) = SEND_BODY"
        by simp_all
      from s0 \<open>r0 = Inr u\<close> sr Inr assms
      have fin: "finish_response stream t resp c1 = (Inl e, c')" by (simp add: send_def)
      then have buffered: "\<not> stream" by (auto simp: finish_response_def)
      obtain r2 c2 where bi: "body_iter t [] c1 = (r2, c2)" by (cases "body_iter t [] c1")
      from fin buffered fresh bi have r2: "r2 = Inl e" and c': "c' = snd (response_closed c2)"
        by (auto simp: finish_response_buffered split: sum.splits)
      from body_iter_failure_state [OF body] bi r2
      have "their_state (h11_state c2) \<noteq> DONE" by simp
      with c' have "c' = (snd (close c2))\<lparr>log := log c2 @ [WriterClosed] @ release_actions c2\<rparr>"
        by (simp add: response_closed_eq)
      with close_is_closed [of c2] show ?thesis
        by (auto simp: HTTP11Connection_is_closed_def)
    qed
  qed
qed

lemma send_refused:
  assumes "our_state (h11_state c) \<noteq> IDLE \<or> their_state (h11_state c) \<noteq> IDLE"
  shows "fst (send request t stream c) = Inl LocalProtocolError
     \<and> log (snd (send request t stream c)) = log c
     \<and> writer (snd (send request t stream c)) = writer c
     \<and> reader (snd (send request t stream c)) = reader c
     \<and> HTTP11Connection_is_closed (snd (send request t stream c))"
proof -
  let ?ev = "h11_Request (req_method request) (req_full_path request) (req_headers request)"
  from assms have "process_client_event ?ev (h11_state c) = None"
    by (cases "our_state (h11_state c)") (auto simp: process_client_event_def)
  then have "send_event ?ev t c =
      (Inl LocalProtocolError,
       c\<lparr>h11_state := (if our_state (h11_state c) = ERROR then h11_state c
           else fire_state_triggered_transitions ((h11_state c)\<lparr>our_state := ERROR\<rparr>))\<rparr>)"
    by (simp add: send_event_def h11_send_def)
  then show ?thesis
    by (simp add: send_def send_request_def HTTP11Connection_is_closed_def
          fire_state_triggered_transitions_def Let_def)
qed

text \<open>
  C4. Unless both machines are idle, \<open>send\<close> fails with the protocol error of the
  rejected request-start event before anything is written or read, and leaves the
  driver closed; must-close is one such state, whoever forced it. And whatever made a
  \<open>send\<close> fail, a write timeout, a read timeout or a protocol error, the local
  machine is not idle afterwards, so the next \<open>send\<close> on the driver fails in that
  way and leaves the log as it was.
\<close>

theorem send_refused_unless_idle:
  "(our_state (h11_state c) \<noteq> IDLE \<or> their_state (h11_state c) \<noteq> IDLE \<longrightarrow>
      fst (send request t stream c) = Inl LocalProtocolError
      \<and> log (snd (send request t stream c)) = log c
      \<and> writer (snd (send request t stream c)) = writer c
      \<and> reader (snd (send request t stream c)) = reader c
      \<and> HTTP11Connection_is_closed (snd (send request t stream c)))
   \<and> (fst (send request t stream c) = Inl e \<longrightarrow>
      our_state (h11_state (snd (send request t stream c))) \<noteq> IDLE
      \<and> fst (send request' t' stream' (snd (send request t stream c))) = Inl LocalProtocolError
      \<and> log (snd (send request' t' stream' (snd (send request t stream c))))
          = log (snd (send request t stream c)))"
proof -
  have second: "our_state (h11_state (snd (send request t stream c))) \<noteq> IDLE
      \<and> fst (send request' t' stream' (snd (send request t stream c))) = Inl LocalProtocolError
      \<and> log (snd (send request' t' stream' (snd (send request t stream c))))
          = log (snd (send request t stream c))"
    if failed: "fst (send request t stream c) = Inl e"
  proof -
    from failed have "send request t stream c = (Inl e, snd (send request t stream c))"
      by (simp add: prod_eq_iff)
    from send_failed_not_IDLE [OF this]
    have ni: "our_state (h11_state (snd (send request t stream c))) \<noteq> IDLE" .
    with send_refused [of "snd (send request t stream c)" request' t' stream']
    show ?thesis by simp
  qed
  from send_refused [of c request t stream] second show ?thesis by blast
qed

text \<open>
  Three instances: a response with \<open>Connection: close\<close>, returned as a stream, leaves
  the local machine in must-close; a write times out in the middle of the request
  body; the read for the response times out. The next \<open>send\<close> fails each time.
\<close>

theorem send_refused_unless_idle_witness:
  "our_state (h11_state (snd (send \<lparr>req_method = ''GET'', req_full_path = ''/'', req_headers = [], req_stream = []\<rparr> None True
       (HTTP11Connection_init
          [Chunk [h11_Response 200 ''OK'' [(''connection'', ''close'')], h11_Data ''hello'',
                  h11_EndOfMessage]]
          \<lparr>writes_before_timeout = None, writer_closed = False\<rparr> None)))) = MUST_CLOSE
   \<and> fst (send \<lparr>req_method = ''GET'', req_full_path = ''/next'', req_headers = [], req_stream = []\<rparr> None False (snd (send \<lparr>req_method = ''GET'', req_full_path = ''/'', req_headers = [], req_stream = []\<rparr> None True
       (HTTP11Connection_init
          [Chunk [h11_Response 200 ''OK'' [(''connection'', ''close'')], h11_Data ''hello'',
                  h11_EndOfMessage]]
          \<lparr>writes_before_timeout = None, writer_closed = False\<rparr> None)))) = Inl LocalProtocolError
   \<and> fst (send \<lparr>req_method = ''POST'', req_full_path = ''/upload'', req_headers = [],
           req_stream = [''ab'']\<rparr> None False
       (HTTP11Connection_init []
          \<lparr>writes_before_timeout = Some 1, writer_closed = False\<rparr> None)) = Inl WriteTimeout
   \<and> fst (send \<lparr>req_method = ''GET'', req_full_path = ''/next'', req_headers = [], req_stream = []\<rparr> None False (snd (send \<lparr>req_method = ''POST'', req_full_path = ''/upload'', req_headers = [],
           req_stream = [''ab'']\<rparr> None False
       (HTTP11Connection_init []
          \<lparr>writes_before_timeout = Some 1, writer_closed = False\<rparr> None)))) = Inl LocalProtocolError
   \<and> fst (send \<lparr>req_method = ''GET'', req_full_path = ''/'', req_headers = [], req_stream = []\<rparr> None False
       (HTTP11Connection_init [TimesOut]
          \<lparr>writes_before_timeout = None, writer_closed = False\<rparr> None)) = Inl ReadTimeout
   \<and> fst (send \<lparr>req_method = ''GET'', req_full_path = ''/next'', req_headers = [], req_stream = []\<rparr> None False (snd (send \<lparr>req_method = ''GET'', req_full_path = ''/'', req_headers = [], req_stream = []\<rparr> None False
       (HTTP11Connection_init [TimesOut]
          \<lparr>writes_before_timeout = None, writer_closed = False\<rparr> None)))) = Inl LocalProtocolError"
proof -
  let ?get = "\<lparr>req_method = ''GET'', req_full_path = ''/'', req_headers = [], req_stream = []\<rparr>"
  let ?next = "\<lparr>req_method = ''GET'', req_full_path = ''/next'', req_headers = [], req_stream = []\<rparr>"
  let ?post = "\<lparr>req_method = ''POST'', req_full_path = ''/upload'', req_headers = [],
           req_stream = [''ab'']\<rparr>"
  let ?cc = "snd (send ?get None True (HTTP11Connection_init
          [Chunk [h11_Response 200 ''OK'' [(''connection'', ''close'')], h11_Data ''hello'',
                  h11_EndOfMessage]]
          \<lparr>writes_before_timeout = None, writer_closed = False\<rparr> None))"
  let ?cw = "(HTTP11Connection_init []
          \<lparr>writes_before_timeout = Some 1, writer_closed = False\<rparr> None)"
  let ?cr = "(HTTP11Connection_init [TimesOut]
          \<lparr>writes_before_timeout = None, writer_closed = False\<rparr> None)"
  have forced: "our_state (h11_state ?cc) = MUST_CLOSE" by code_simp
  then have "our_state (h11_state ?cc) \<noteq> IDLE \<or> their_state (h11_state ?cc) \<noteq> IDLE"
    by simp
  with send_refused_unless_idle [where c = ?cc and request = ?next and t = None
      and stream = False]
  have a: "fst (send ?next None False ?cc) = Inl LocalProtocolError" by blast
  have w: "fst (send ?post None False ?cw) = Inl WriteTimeout" by code_simp
  with send_refused_unless_idle [where c = ?cw and request = ?post and t = None
      and stream = False and e = WriteTimeout and request' = ?next and t' = None
      and stream' = False]
  have b: "fst (send ?next None False (snd (send ?post None False ?cw))) = Inl LocalProtocolError"
    by blast
  have r: "fst (send ?get None False ?cr) = Inl ReadTimeout" by code_simp
  with send_refused_unless_idle [where c = ?cr and request = ?get and t = None
      and stream = False and e = ReadTimeout and request' = ?next and t' = None
      and stream' = False]
  have c: "fst (send ?next None False (snd (send ?get None False ?cr))) = Inl LocalProtocolError"
    by blast
  from forced a w b r c show ?thesis by simp
qed

end
